theory Spec2Isabelle
  imports Main
begin

section \<open>The screen model of vt100.go\<close>

text \<open>
  Go's \<open>rune\<close> is an \<open>int32\<close> code point; no arithmetic is done on runes in
  the code below, so they are integers here. The space is 32, the zero value of a freshly
  made row is 0.
\<close>

type_synonym rune = int

datatype intensity = Normal | Bold | Faint

text \<open>
  Modelled from the spec: the type \<open>termenv.Color\<close> of the fields \<open>Fg\<close> and
  \<open>Bg\<close> is declared outside the repository. The specification describes a colour
  as an entry of the 16-colour ANSI palette (0-7 normal, 8-15 bright) or a "default"
  sentinel, which is what the zero value of \<open>Format\<close> holds.
\<close>

datatype color = DefaultColor | ANSIColor nat

record format =
  Reset :: bool
  Fg :: color
  Bg :: color
  Intensity :: intensity
  Italic :: bool
  Underline :: bool
  Blink :: bool
  Reverse :: bool
  Conceal :: bool
  CrossOut :: bool
  Overline :: bool

text \<open>The zero value \<open>Format{}\<close>.\<close>

definition zeroFormat :: format where
  "zeroFormat = \<lparr>Reset = False, Fg = DefaultColor, Bg = DefaultColor, Intensity = Normal,
     Italic = False, Underline = False, Blink = False, Reverse = False, Conceal = False,
     CrossOut = False, Overline = False\<rparr>"

record cursor =
  Y :: int
  X :: int
  F :: format

definition zeroCursor :: cursor where
  "zeroCursor = \<lparr>Y = 0, X = 0, F = zeroFormat\<rparr>"

text \<open>
  The struct \<open>VT100\<close>. The mutex \<open>mut\<close> and the log sink \<open>DebugLogs\<close> are
  left out: every public method holds the lock for its whole body, and the sink only
  receives text. Rows are lists, so two rows never share storage; this is the situation
  \<open>NewVT100\<close> and \<open>resize\<close> create.
\<close>

record vt100 =
  Height :: int
  Width :: int
  Content :: "rune list list"
  Format :: "format list list"
  Cursor :: cursor
  AutoResizeY :: bool
  AutoResizeX :: bool
  savedCursor :: cursor
  unparsed :: "char list"
  maxY :: int

subsection \<open>Panics, indexing and loops\<close>

text \<open>
  A Go panic ends the call without a result. \<open>InvalidDim\<close> is the panic of
  \<open>NewVT100\<close>; the others are the run-time panics of indexing, slicing and
  \<open>make\<close>.
\<close>

datatype panic = InvalidDim int int | IndexOutOfRange | SliceBoundsOutOfRange | MakeLenOutOfRange

definition andThen :: "panic + 'a \<Rightarrow> ('a \<Rightarrow> panic + 'b) \<Rightarrow> panic + 'b" where
  "andThen m f = (case m of Inl p \<Rightarrow> Inl p | Inr a \<Rightarrow> f a)"

text \<open>\<open>xs[i]\<close> as a read and as an assignment: both panic outside \<open>0 \<le> i < len(xs)\<close>.\<close>

definition at :: "'a list \<Rightarrow> int \<Rightarrow> panic + 'a" where
  "at xs i = (if 0 \<le> i \<and> i < int (length xs) then Inr (xs ! nat i) else Inl IndexOutOfRange)"

definition assign :: "'a list \<Rightarrow> int \<Rightarrow> 'a \<Rightarrow> panic + 'a list" where
  "assign xs i a =
     (if 0 \<le> i \<and> i < int (length xs) then Inr (xs[nat i := a]) else Inl IndexOutOfRange)"

text \<open>\<open>make([]T, n)\<close>: \<open>n\<close> zero values; panics when \<open>n\<close> is negative.\<close>

definition make :: "'a \<Rightarrow> int \<Rightarrow> panic + 'a list" where
  "make z n = (if n < 0 then Inl MakeLenOutOfRange else Inr (replicate (nat n) z))"

text \<open>
  \<open>xs[:n]\<close>. Go allows \<open>n\<close> up to the capacity; the capacity is taken to be the
  length, which is the case whenever the code below slices (it slices only after
  comparing \<open>n\<close> with the recorded height or width).
\<close>

definition slice_to :: "'a list \<Rightarrow> int \<Rightarrow> panic + 'a list" where
  "slice_to xs n =
     (if 0 \<le> n \<and> n \<le> int (length xs) then Inr (take (nat n) xs) else Inl SliceBoundsOutOfRange)"

text \<open>\<open>for i := lo; i < hi; i++ { body }\<close> over a state, stopping at the first panic.\<close>

function forRange :: "int \<Rightarrow> int \<Rightarrow> (int \<Rightarrow> 's \<Rightarrow> panic + 's) \<Rightarrow> 's \<Rightarrow> panic + 's" where
  "forRange i n body s =
     (if i < n then (case body i s of Inl p \<Rightarrow> Inl p | Inr s' \<Rightarrow> forRange (i + 1) n body s')
      else Inr s)"
  by pat_completeness auto
termination
  by (relation "measure (\<lambda>(i, n, body, s). nat (n - i))") auto

declare forRange.simps [simp del]

text \<open>\<open>copy(dst, src)\<close> overwrites the first \<open>min(len(dst), len(src))\<close> elements.\<close>

definition copy :: "'a list \<Rightarrow> 'a list \<Rightarrow> 'a list" where
  "copy dst src = take (length dst) src @ drop (length src) dst"

text \<open>\<open>g[y][x] = a\<close> on a slice of slices.\<close>

definition assign2 :: "'a list list \<Rightarrow> int \<Rightarrow> int \<Rightarrow> 'a \<Rightarrow> panic + 'a list list" where
  "assign2 g y x a =
     andThen (at g y) (\<lambda>row. andThen (assign row x a) (\<lambda>row'. assign g y row'))"

subsection \<open>clear, NewVT100, UsedHeight\<close>

definition clear :: "vt100 \<Rightarrow> int \<Rightarrow> int \<Rightarrow> panic + vt100" where
  "clear v y x =
     (if y \<ge> int (length (Content v)) then Inr v
      else andThen (at (Content v) 0) (\<lambda>row0.
        if x \<ge> int (length row0) then Inr v
        else andThen (assign2 (Content v) y x 32) (\<lambda>content'.
             andThen (assign2 (Format v) y x zeroFormat) (\<lambda>format'.
               Inr (v\<lparr>Content := content', Format := format'\<rparr>)))))"

definition NewVT100 :: "int \<Rightarrow> int \<Rightarrow> panic + vt100" where
  "NewVT100 y x =
     (if y \<le> 0 \<or> x \<le> 0 then Inl (InvalidDim y x)
      else
        andThen (make [] y) (\<lambda>content.
        andThen (make [] y) (\<lambda>format.
        forRange 0 y (\<lambda>row v.
            andThen (make 0 x) (\<lambda>r.
            andThen (assign (Content v) row r) (\<lambda>content'.
            andThen (make zeroFormat x) (\<lambda>f.
            andThen (assign (Format v) row f) (\<lambda>format'.
              forRange 0 x (\<lambda>col v. clear v row col)
                (v\<lparr>Content := content', Format := format'\<rparr>))))))
          \<lparr>Height = y, Width = x, Content = content, Format = format, Cursor = zeroCursor,
           AutoResizeY = False, AutoResizeX = False, savedCursor = zeroCursor,
           unparsed = [], maxY = - 1\<rparr>)))"

definition UsedHeight :: "vt100 \<Rightarrow> int" where
  "UsedHeight v = maxY v + 1"

subsection \<open>resize\<close>

definition resize :: "vt100 \<Rightarrow> int \<Rightarrow> int \<Rightarrow> panic + vt100" where
  "resize v h w =
     andThen
       (if h > Height v then
          andThen
            (forRange 0 (h - Height v) (\<lambda>row v.
               andThen (make 0 (Width v)) (\<lambda>r.
               andThen (make zeroFormat (Width v)) (\<lambda>f.
                 forRange 0 (Width v) (\<lambda>col v. clear v (Height v + row) col)
                   (v\<lparr>Content := Content v @ [r], Format := Format v @ [f]\<rparr>)))) v)
            (\<lambda>v. Inr (v\<lparr>Height := h\<rparr>))
        else if h < Height v then
          andThen (slice_to (Content v) h) (\<lambda>content'.
          andThen (slice_to (Format v) h) (\<lambda>format'.
            Inr (v\<lparr>Content := content', Format := format', Height := h\<rparr>)))
        else Inr v)
       (\<lambda>v.
          let v = (if h < maxY v then v\<lparr>maxY := h - 1\<rparr> else v) in
          andThen
            (if w > Width v then
               andThen
                 (forRange 0 (int (length (Content v))) (\<lambda>i v.
                    andThen (make 0 w) (\<lambda>row.
                    andThen (at (Content v) i) (\<lambda>old.
                    andThen (assign (Content v) i (copy row old)) (\<lambda>content'.
                    andThen (make zeroFormat w) (\<lambda>fmt.
                    andThen (at (Format v) i) (\<lambda>oldF.
                    andThen (assign (Format v) i (copy fmt oldF)) (\<lambda>format'.
                      forRange (Width v) w (\<lambda>j v. clear v i j)
                        (v\<lparr>Content := content', Format := format'\<rparr>)))))))) v)
                 (\<lambda>v. Inr (v\<lparr>Width := w\<rparr>))
             else if w < Width v then
               andThen
                 (forRange 0 (int (length (Content v))) (\<lambda>i v.
                    andThen (at (Content v) i) (\<lambda>old.
                    andThen (slice_to old w) (\<lambda>row.
                    andThen (assign (Content v) i row) (\<lambda>content'.
                    andThen (at (Format v) i) (\<lambda>oldF.
                    andThen (slice_to oldF w) (\<lambda>rowF.
                    andThen (assign (Format v) i rowF) (\<lambda>format'.
                      Inr (v\<lparr>Content := content', Format := format'\<rparr>)))))))) v)
                 (\<lambda>v. Inr (v\<lparr>Width := w\<rparr>))
             else Inr v)
            (\<lambda>v. Inr (if X (Cursor v) \<ge> Width v
                       then v\<lparr>Cursor := (Cursor v)\<lparr>X := Width v - 1\<rparr>\<rparr> else v)))"

text \<open>The public \<open>Resize\<close> takes the lock and calls \<open>resize\<close>.\<close>

definition Resize :: "vt100 \<Rightarrow> int \<Rightarrow> int \<Rightarrow> panic + vt100" where
  "Resize v h w = resize v h w"

subsection \<open>Writing a rune: put, advance, scrolling and automatic growth\<close>

definition advance :: "vt100 \<Rightarrow> vt100" where
  "advance v =
     (let v = v\<lparr>Cursor := (Cursor v)\<lparr>X := X (Cursor v) + 1\<rparr>\<rparr> in
      if X (Cursor v) \<ge> Width v \<and> \<not> AutoResizeX v
      then v\<lparr>Cursor := (Cursor v)\<lparr>X := 0, Y := Y (Cursor v) + 1\<rparr>\<rparr>
      else v)"

definition resizeXIfNeeded :: "vt100 \<Rightarrow> panic + vt100" where
  "resizeXIfNeeded v =
     (if AutoResizeX v \<and> X (Cursor v) + 1 \<ge> Width v
      then resize v (Height v) (X (Cursor v) + 1) else Inr v)"

definition scrollOne :: "vt100 \<Rightarrow> panic + vt100" where
  "scrollOne v =
     andThen (at (Content v) 0) (\<lambda>first.
     andThen (assign (copy (Content v) (tl (Content v))) (Height v - 1)
                (replicate (length first) 32)) (\<lambda>content'.
     andThen (at (Format v) 0) (\<lambda>firstF.
     andThen (if length firstF < length first then Inl IndexOutOfRange
              else Inr (replicate (length first) zeroFormat @ drop (length first) firstF))
             (\<lambda>firstF'.
     andThen (assign (copy (Format v) (tl (Format v))) (Height v - 1) firstF') (\<lambda>format'.
       Inr (v\<lparr>Content := content', Format := format',
              Cursor := (Cursor v)\<lparr>Y := Height v - 1\<rparr>\<rparr>))))))"

definition scrollOrResizeYIfNeeded :: "vt100 \<Rightarrow> panic + vt100" where
  "scrollOrResizeYIfNeeded v =
     (if Y (Cursor v) \<ge> Height v then
        (if AutoResizeY v then resize v (Y (Cursor v) + 1) (Width v) else scrollOne v)
      else Inr v)"

definition put :: "vt100 \<Rightarrow> rune \<Rightarrow> panic + vt100" where
  "put v r =
     (let v = (if Y (Cursor v) > maxY v then v\<lparr>maxY := Y (Cursor v)\<rparr> else v) in
      andThen (scrollOrResizeYIfNeeded v) (\<lambda>v.
      andThen (resizeXIfNeeded v) (\<lambda>v.
      andThen (assign2 (Content v) (Y (Cursor v)) (X (Cursor v)) r) (\<lambda>content'.
      andThen (assign2 (Format v) (Y (Cursor v)) (X (Cursor v)) (F (Cursor v))) (\<lambda>format'.
        Inr (advance (v\<lparr>Content := content', Format := format'\<rparr>)))))))"

subsection \<open>Cursor movement and erasing\<close>

definition home :: "vt100 \<Rightarrow> int \<Rightarrow> int \<Rightarrow> vt100" where
  "home v y x = v\<lparr>Cursor := (Cursor v)\<lparr>Y := y, X := x\<rparr>\<rparr>"

type_synonym eraseDirection = int

definition eraseForward :: eraseDirection where "eraseForward = 0"
definition eraseBack :: eraseDirection where "eraseBack = 1"
definition eraseAll :: eraseDirection where "eraseAll = 2"

definition eraseRegion :: "vt100 \<Rightarrow> int \<Rightarrow> int \<Rightarrow> int \<Rightarrow> int \<Rightarrow> panic + vt100" where
  "eraseRegion v y1 x1 y2 x2 =
     (let (y1, y2) = (if y1 > y2 then (y2, y1) else (y1, y2));
          (x1, x2) = (if x1 > x2 then (x2, x1) else (x1, x2))
      in forRange y1 (y2 + 1) (\<lambda>y v. forRange x1 (x2 + 1) (\<lambda>x v. clear v y x) v) v)"

definition eraseColumns :: "vt100 \<Rightarrow> eraseDirection \<Rightarrow> panic + vt100" where
  "eraseColumns v d =
     (let y = Y (Cursor v); x = X (Cursor v) in
      if d = eraseBack then eraseRegion v y 0 y x
      else if d = eraseForward then eraseRegion v y x y (Width v - 1)
      else if d = eraseAll then eraseRegion v y 0 y (Width v - 1)
      else Inr v)"

definition eraseLines :: "vt100 \<Rightarrow> eraseDirection \<Rightarrow> panic + vt100" where
  "eraseLines v d =
     (let y = Y (Cursor v) in
      if d = eraseBack then eraseRegion v 0 0 y (Width v - 1)
      else if d = eraseForward then eraseRegion v y 0 (Height v - 1) (Width v - 1)
      else if d = eraseAll then eraseRegion v 0 0 (Height v - 1) (Width v - 1)
      else Inr v)"

definition backspace :: "vt100 \<Rightarrow> vt100" where
  "backspace v =
     (let v = v\<lparr>Cursor := (Cursor v)\<lparr>X := X (Cursor v) - 1\<rparr>\<rparr> in
      if X (Cursor v) < 0 then
        (if Y (Cursor v) = 0 then v\<lparr>Cursor := (Cursor v)\<lparr>X := 0\<rparr>\<rparr>
         else v\<lparr>Cursor := (Cursor v)\<lparr>Y := Y (Cursor v) - 1, X := Width v - 1\<rparr>\<rparr>)
      else v)"

definition save :: "vt100 \<Rightarrow> vt100" where
  "save v = v\<lparr>savedCursor := Cursor v\<rparr>"

definition unsave :: "vt100 \<Rightarrow> vt100" where
  "unsave v = v\<lparr>Cursor := savedCursor v\<rparr>"


section \<open>The command interpreter\<close>

text \<open>
  Modelled from the spec: the file that declares \<open>Command\<close>, its three
  implementations and their \<open>display\<close> methods is not among the sources; only the
  tests of \<open>command_test.go\<close> are. A command is a printable rune, one of the control
  bytes BS, HT, LF, CR, or a CSI escape with its final byte, its list of optional
  numeric parameters and an optional private marker (sections 4.1 and 9 of the
  specification).
\<close>

datatype Command = PutRune rune | Control char | Escape char "int option list" "char option"

text \<open>
  Modelled from the spec: the errors \<open>display\<close> hands back. \<open>Write\<close> prints
  them to the log and \<open>Process\<close> returns them. An escape whose final byte has no
  handler is unsupported; an SGR list with unknown codes is logged with those codes
  while the known ones are applied.
\<close>

datatype error = UnsupportedCommand char | UnknownAttributes "int list"

text \<open>The \<open>i\<close>-th parameter, or \<open>d\<close> when it is absent.\<close>

definition param :: "int option list \<Rightarrow> nat \<Rightarrow> int \<Rightarrow> int" where
  "param ps i d = (if i < length ps then (case ps ! i of None \<Rightarrow> d | Some n \<Rightarrow> n) else d)"

text \<open>
  Modelled from the spec: the parameter of a cursor-motion escape is 1 when absent or
  zero (section 4.3.3).
\<close>

definition motionParam :: "int option list \<Rightarrow> nat \<Rightarrow> int" where
  "motionParam ps i = (let n = param ps i 1 in if n = 0 then 1 else n)"

text \<open>
  Modelled from the spec: one SGR parameter applied to the cursor format, by the table
  of section 4.3.4; \<open>None\<close> for a code that is not in the table. Parameter 0 replaces
  the format by the default one and sets \<open>Reset\<close>. Bright colours are the palette
  entries 8 to 15.
\<close>

definition sgr :: "format \<Rightarrow> int \<Rightarrow> format option" where
  "sgr f p =
     (if p = 0 then Some (zeroFormat\<lparr>Reset := True\<rparr>)
      else if p = 1 then Some (f\<lparr>Intensity := Bold\<rparr>)
      else if p = 2 then Some (f\<lparr>Intensity := Faint\<rparr>)
      else if p = 3 then Some (f\<lparr>Italic := True\<rparr>)
      else if p = 4 then Some (f\<lparr>Underline := True\<rparr>)
      else if p = 5 \<or> p = 6 then Some (f\<lparr>Blink := True\<rparr>)
      else if p = 7 then Some (f\<lparr>Reverse := True\<rparr>)
      else if p = 8 then Some (f\<lparr>Conceal := True\<rparr>)
      else if p = 9 then Some (f\<lparr>CrossOut := True\<rparr>)
      else if p = 22 then Some (f\<lparr>Intensity := Normal\<rparr>)
      else if p = 23 then Some (f\<lparr>Italic := False\<rparr>)
      else if p = 24 then Some (f\<lparr>Underline := False\<rparr>)
      else if p = 25 then Some (f\<lparr>Blink := False\<rparr>)
      else if p = 27 then Some (f\<lparr>Reverse := False\<rparr>)
      else if p = 28 then Some (f\<lparr>Conceal := False\<rparr>)
      else if p = 29 then Some (f\<lparr>CrossOut := False\<rparr>)
      else if 30 \<le> p \<and> p \<le> 37 then Some (f\<lparr>Fg := ANSIColor (nat (p - 30))\<rparr>)
      else if p = 39 then Some (f\<lparr>Fg := DefaultColor\<rparr>)
      else if 40 \<le> p \<and> p \<le> 47 then Some (f\<lparr>Bg := ANSIColor (nat (p - 40))\<rparr>)
      else if p = 49 then Some (f\<lparr>Bg := DefaultColor\<rparr>)
      else if p = 53 then Some (f\<lparr>Overline := True\<rparr>)
      else if p = 55 then Some (f\<lparr>Overline := False\<rparr>)
      else if 90 \<le> p \<and> p \<le> 97 then Some (f\<lparr>Fg := ANSIColor (8 + nat (p - 90))\<rparr>)
      else if 100 \<le> p \<and> p \<le> 107 then Some (f\<lparr>Bg := ANSIColor (8 + nat (p - 100))\<rparr>)
      else None)"

text \<open>
  Modelled from the spec: the parameters are consumed left to right; an unknown code is
  collected for the log and the remaining parameters are still applied.
\<close>

fun sgrAll :: "format \<Rightarrow> int list \<Rightarrow> format \<times> int list" where
  "sgrAll f [] = (f, [])"
| "sgrAll f (p # ps) =
     (case sgr f p of
        Some f' \<Rightarrow> sgrAll f' ps
      | None \<Rightarrow> (case sgrAll f ps of (f', unknown) \<Rightarrow> (f', p # unknown)))"

text \<open>
  Modelled from the spec: an empty parameter list is \<open>[0]\<close>, and an absent parameter
  inside a list is 0.
\<close>

definition updateAttributes :: "vt100 \<Rightarrow> int option list \<Rightarrow> error option \<times> vt100" where
  "updateAttributes v ps =
     (let args = (if ps = [] then [0] else map (\<lambda>p. case p of None \<Rightarrow> 0 | Some n \<Rightarrow> n) ps) in
      case sgrAll (F (Cursor v)) args of
        (f, unknown) \<Rightarrow>
          (if unknown = [] then None else Some (UnknownAttributes unknown),
           v\<lparr>Cursor := (Cursor v)\<lparr>F := f\<rparr>\<rparr>))"

text \<open>Go's integer division, which truncates towards zero.\<close>

definition quot :: "int \<Rightarrow> int \<Rightarrow> int" where
  "quot a b = sgn a * sgn b * (\<bar>a\<bar> div \<bar>b\<bar>)"

text \<open>
  Modelled from the spec: the control bytes. BS is \<open>backspace\<close> and CR sets the
  column to 0. In two places the tests of \<open>command_test.go\<close> fix the behaviour and
  the model follows them: \<open>TestHorizontalTab\<close> expects the tab stops at the multiples
  of 4 (the specification's formula has 8), clamped to the last column, and
  \<open>TestLineFeed\<close> and \<open>TestAutoResizeXY\<close> expect LF to return to column 0 as
  well as moving down (the specification's table leaves the column alone).
\<close>

definition horizontalTab :: "vt100 \<Rightarrow> vt100" where
  "horizontalTab v =
     v\<lparr>Cursor := (Cursor v)\<lparr>X := min ((quot (X (Cursor v)) 4 + 1) * 4) (Width v - 1)\<rparr>\<rparr>"

definition linefeed :: "vt100 \<Rightarrow> vt100" where
  "linefeed v = v\<lparr>Cursor := (Cursor v)\<lparr>Y := Y (Cursor v) + 1, X := 0\<rparr>\<rparr>"

definition carriageReturn :: "vt100 \<Rightarrow> vt100" where
  "carriageReturn v = v\<lparr>Cursor := (Cursor v)\<lparr>X := 0\<rparr>\<rparr>"

definition control :: "char \<Rightarrow> vt100 \<Rightarrow> vt100" where
  "control b v =
     (if b = CHR 0x08 then backspace v
      else if b = CHR 0x09 then horizontalTab v
      else if b = CHR 0x0A then linefeed v
      else if b = CHR 0x0D then carriageReturn v
      else v)"

text \<open>
  Modelled from the spec: the dispatch of an escape on its final byte, by the table of
  section 4.3.3. The cursor-motion escapes add to or set the cursor coordinates and do
  not clamp them (section 9, first open question); like every cursor move of
  \<open>vt100.go\<close> they go through \<open>home\<close>, which stores what it is given. The erase
  escapes pass their mode (default 0) to \<open>eraseLines\<close> and \<open>eraseColumns\<close>. Any
  other final byte is unsupported and leaves the terminal as it is.
\<close>

definition escape :: "char \<Rightarrow> int option list \<Rightarrow> vt100 \<Rightarrow> panic + error option \<times> vt100" where
  "escape final ps v =
     (let y = Y (Cursor v); x = X (Cursor v) in
      if final = CHR ''A'' then Inr (None, home v (y - motionParam ps 0) x)
      else if final = CHR ''B'' then Inr (None, home v (y + motionParam ps 0) x)
      else if final = CHR ''C'' then Inr (None, home v y (x + motionParam ps 0))
      else if final = CHR ''D'' then Inr (None, home v y (x - motionParam ps 0))
      else if final = CHR ''H'' \<or> final = CHR ''f''
        then Inr (None, home v (motionParam ps 0 - 1) (motionParam ps 1 - 1))
      else if final = CHR ''J'' then andThen (eraseLines v (param ps 0 0)) (\<lambda>v. Inr (None, v))
      else if final = CHR ''K'' then andThen (eraseColumns v (param ps 0 0)) (\<lambda>v. Inr (None, v))
      else if final = CHR ''m'' then Inr (updateAttributes v ps)
      else if final = CHR ''s'' then Inr (None, save v)
      else if final = CHR ''u'' then Inr (None, unsave v)
      else Inr (Some (UnsupportedCommand final), v))"

fun display :: "Command \<Rightarrow> vt100 \<Rightarrow> panic + error option \<times> vt100" where
  "display (PutRune r) v = andThen (put v r) (\<lambda>v. Inr (None, v))"
| "display (Control b) v = Inr (None, control b v)"
| "display (Escape final ps private) v = escape final ps v"

text \<open>\<open>Process\<close> takes the lock and returns what \<open>display\<close> returns.\<close>

definition Process :: "vt100 \<Rightarrow> Command \<Rightarrow> panic + error option \<times> vt100" where
  "Process v c = display c v"

subsection \<open>Write\<close>

text \<open>
  \<open>Write\<close> calls \<open>Decode\<close> on a buffer of the pending bytes. \<open>Decode\<close> is
  declared in the file that is not among the sources, and \<open>Write\<close> depends on two
  things only: whether the call returned a command or an error, and how many bytes of
  the buffer it read. So the decoder is a parameter: \<open>Decoded c k\<close> is a command
  decoded from the first \<open>k + 1\<close> bytes, \<open>DecodeError k\<close> an error after \<open>k\<close>
  bytes were read. What \<open>Write\<close> logs is not part of the terminal.
\<close>

datatype decoded = Decoded Command nat | DecodeError nat

function writeLoop :: "(char list \<Rightarrow> decoded) \<Rightarrow> vt100 \<Rightarrow> char list \<Rightarrow> panic + vt100" where
  "writeLoop Decode v buf =
     (if length buf = 0 then Inr v
      else case Decode buf of
        DecodeError k \<Rightarrow>
          (let rest = drop k buf; l = length rest in
           Inr (if l > 0 \<and> l < 12 then v\<lparr>unparsed := rest\<rparr> else v))
      | Decoded cmd k \<Rightarrow>
          (case display cmd v of
             Inl p \<Rightarrow> Inl p
           | Inr (err, v') \<Rightarrow> writeLoop Decode v' (drop (Suc k) buf)))"
  by pat_completeness auto
termination
  by (relation "measure (\<lambda>(Decode, v, buf). length buf)") auto

declare writeLoop.simps [simp del]

definition Write :: "(char list \<Rightarrow> decoded) \<Rightarrow> vt100 \<Rightarrow> char list \<Rightarrow> panic + nat \<times> vt100" where
  "Write Decode v dt =
     (let n = length dt;
          (v, dt) = (if length (unparsed v) > 0 then (v\<lparr>unparsed := []\<rparr>, unparsed v @ dt)
                     else (v, dt))
      in andThen (writeLoop Decode v dt) (\<lambda>v. Inr (n, v)))"

text \<open>
  What the loop of \<open>Write\<close> reads from a buffer: the commands decoded up to the
  first decode error, in order, and the bytes that the failed call of \<open>Decode\<close>
  left unread (\<open>None\<close> when the buffer was used up without an error).
\<close>

function decodeAll :: "(char list \<Rightarrow> decoded) \<Rightarrow> char list \<Rightarrow> Command list \<times> char list option" where
  "decodeAll Decode buf =
     (if length buf = 0 then ([], None)
      else case Decode buf of
        DecodeError k \<Rightarrow> ([], Some (drop k buf))
      | Decoded cmd k \<Rightarrow>
          (case decodeAll Decode (drop (Suc k) buf) of (cmds, rest) \<Rightarrow> (cmd # cmds, rest)))"
  by pat_completeness auto
termination
  by (relation "measure (\<lambda>(Decode, buf). length buf)") auto

declare decodeAll.simps [simp del]

section \<open>Well-formed grids\<close>

text \<open>
  The grid has \<open>n\<close> rows of \<open>m\<close> cells, in the runes and in the formats alike.
\<close>

definition rect :: "vt100 \<Rightarrow> nat \<Rightarrow> nat \<Rightarrow> bool" where
  "rect v n m \<longleftrightarrow>
     length (Content v) = n \<and> length (Format v) = n \<and>
     list_all (\<lambda>row. length row = m) (Content v) \<and>
     list_all (\<lambda>row. length row = m) (Format v)"

text \<open>
  The grid shape of the data model: positive dimensions, exactly \<open>Height\<close> rows, every
  row of length \<open>Width\<close>, runes and formats parallel.
\<close>

definition wf :: "vt100 \<Rightarrow> bool" where
  "wf v \<longleftrightarrow> 1 \<le> Height v \<and> 1 \<le> Width v \<and> rect v (nat (Height v)) (nat (Width v))"

text \<open>The rune and the format of the cell in row \<open>i\<close>, column \<open>j\<close>.\<close>

definition cell :: "vt100 \<Rightarrow> int \<Rightarrow> int \<Rightarrow> rune \<times> format" where
  "cell v i j = (Content v ! nat i ! nat j, Format v ! nat i ! nat j)"

text \<open>
  The terminal in which the cells selected by \<open>P\<close> hold a space with the default
  format and nothing else differs.
\<close>

definition mapij :: "(nat \<Rightarrow> nat \<Rightarrow> 'a \<Rightarrow> 'a) \<Rightarrow> 'a list list \<Rightarrow> 'a list list" where
  "mapij f g = map (\<lambda>(i, row). map (\<lambda>(j, a). f i j a) (enumerate 0 row)) (enumerate 0 g)"

definition blanked :: "(int \<Rightarrow> int \<Rightarrow> bool) \<Rightarrow> vt100 \<Rightarrow> vt100" where
  "blanked P v =
     v\<lparr>Content := mapij (\<lambda>i j a. if P (int i) (int j) then 32 else a) (Content v),
       Format := mapij (\<lambda>i j a. if P (int i) (int j) then zeroFormat else a) (Format v)\<rparr>"

text \<open>A row in which the cells from \<open>lo\<close> up to \<open>hi\<close> (exclusive) hold \<open>z\<close>.\<close>

definition fill :: "nat \<Rightarrow> nat \<Rightarrow> 'a \<Rightarrow> 'a list \<Rightarrow> 'a list" where
  "fill lo hi z xs = take lo xs @ replicate (hi - lo) z @ drop hi xs"

text \<open>
  The rectangles that \<open>eraseColumns\<close> and \<open>eraseLines\<close> hand to \<open>eraseRegion\<close>,
  as sets of cells: for a direction other than 0, 1 and 2 there is none.
\<close>

definition columnsRegion :: "vt100 \<Rightarrow> eraseDirection \<Rightarrow> int \<Rightarrow> int \<Rightarrow> bool" where
  "columnsRegion v d i j \<longleftrightarrow>
     i = Y (Cursor v) \<and> 0 \<le> j \<and> j \<le> Width v - 1 \<and>
     (if d = eraseBack then j \<le> X (Cursor v)
      else if d = eraseForward then X (Cursor v) \<le> j
      else d = eraseAll)"

definition linesRegion :: "vt100 \<Rightarrow> eraseDirection \<Rightarrow> int \<Rightarrow> int \<Rightarrow> bool" where
  "linesRegion v d i j \<longleftrightarrow>
     0 \<le> i \<and> i \<le> Height v - 1 \<and> 0 \<le> j \<and> j \<le> Width v - 1 \<and>
     (if d = eraseBack then i \<le> Y (Cursor v)
      else if d = eraseForward then Y (Cursor v) \<le> i
      else d = eraseAll)"

text \<open>
  The terminal of \<open>TestErase\<close> in \<open>command_test.go\<close>: three rows \<open>abcd\<close>,
  \<open>efgh\<close>, \<open>ijkl\<close>, every cell yellow and bold, the cursor in row 1, column 2.
\<close>

definition testEraseTerminal :: vt100 where
  "testEraseTerminal =
     \<lparr>Height = 3, Width = 4,
      Content = [[97, 98, 99, 100], [101, 102, 103, 104], [105, 106, 107, 108]],
      Format = replicate 3 (replicate 4 (zeroFormat\<lparr>Fg := ANSIColor 3, Intensity := Bold\<rparr>)),
      Cursor = \<lparr>Y = 1, X = 2, F = zeroFormat\<rparr>,
      AutoResizeY = False, AutoResizeX = False, savedCursor = zeroCursor,
      unparsed = [], maxY = - 1\<rparr>"

text \<open>
  What \<open>resize(h, w)\<close> makes of a well-formed terminal, in closed form. A list cut or
  padded with \<open>z\<close> to \<open>n\<close> elements; the grid with \<open>h\<close> rows of \<open>w\<close> cells,
  new cells blank; \<open>maxY\<close> and the cursor column clamped as \<open>resize\<close> does it.
\<close>

definition fit :: "nat \<Rightarrow> 'a \<Rightarrow> 'a list \<Rightarrow> 'a list" where
  "fit n z xs = take n xs @ replicate (n - length xs) z"

definition resized :: "vt100 \<Rightarrow> int \<Rightarrow> int \<Rightarrow> vt100" where
  "resized v h w =
     v\<lparr>Height := h, Width := w,
       Content := map (fit (nat w) 32) (fit (nat h) (replicate (nat (Width v)) 32) (Content v)),
       Format := map (fit (nat w) zeroFormat)
                   (fit (nat h) (replicate (nat (Width v)) zeroFormat) (Format v)),
       maxY := (if h < maxY v then h - 1 else maxY v),
       Cursor := (if X (Cursor v) \<ge> w then (Cursor v)\<lparr>X := w - 1\<rparr> else Cursor v)\<rparr>"

text \<open>
  The cursor column at rest: on the grid, or one past the last column when the
  terminal grows by itself, which is where \<open>advance\<close> then leaves the cursor until
  the next rune widens the grid. The saved cursor is held to the same bound, since
  \<open>unsave\<close> makes it the cursor.
\<close>

definition columnOk :: "vt100 \<Rightarrow> bool" where
  "columnOk v \<longleftrightarrow>
     0 \<le> X (Cursor v) \<and> 0 \<le> X (savedCursor v) \<and>
     (if AutoResizeX v
      then X (Cursor v) \<le> Width v \<and> X (savedCursor v) \<le> Width v
      else X (Cursor v) < Width v \<and> X (savedCursor v) < Width v)"

text \<open>The escapes that set the cursor column from their parameter: CUF, CUB and CUP.\<close>

definition setsColumn :: "Command \<Rightarrow> bool" where
  "setsColumn c =
     (case c of
        Escape final ps private \<Rightarrow>
          final = CHR ''C'' \<or> final = CHR ''D'' \<or> final = CHR ''H'' \<or> final = CHR ''f''
      | _ \<Rightarrow> False)"

text \<open>
  A sequence of commands given to \<open>Process\<close> one after the other, as the tests do;
  an error that \<open>Process\<close> returns does not stop the sequence, a panic does.
\<close>

fun processAll :: "vt100 \<Rightarrow> Command list \<Rightarrow> panic + vt100" where
  "processAll v [] = Inr v"
| "processAll v (c # cs) =
     (case Process v c of Inl p \<Rightarrow> Inl p | Inr (err, v') \<Rightarrow> processAll v' cs)"

section \<open>The used height against the height (C1)\<close>

text \<open>
  C1. The claim is that in every state reachable from \<open>NewVT100\<close> through the public
  operations, \<open>maxY \<le> Height - 1\<close>, that is \<open>UsedHeight() \<le> Height\<close>. Two runs
  of the code end outside it. On a 3 x 1 terminal, three runes fill rows 0, 1 and 2
  (\<open>maxY = 2\<close>); \<open>Resize(2, 1)\<close> then keeps \<open>maxY = 2\<close>, because \<open>resize\<close>
  clamps only when \<open>h < maxY\<close>: the height is 2 and the used height 3. On a 1 x 1
  terminal the second rune scrolls, and \<open>put\<close> records the cursor row before
  scrolling: the height is 1 and the used height 2.
\<close>

theorem maxY_beyond_Height:
  "map_sum id (\<lambda>v. (Height v, maxY v, UsedHeight v))
     (andThen (NewVT100 3 1) (\<lambda>v. andThen (put v 97) (\<lambda>v. andThen (put v 98) (\<lambda>v.
        andThen (put v 99) (\<lambda>v. Resize v 2 1)))))
     = Inr (2, 2, 3)
   \<and> map_sum id (\<lambda>v. (Height v, maxY v, UsedHeight v))
     (andThen (NewVT100 1 1) (\<lambda>v. andThen (put v 97) (\<lambda>v. put v 98)))
     = Inr (1, 1, 2)"
  by code_simp

section \<open>Basic facts about panics, indexing and loops\<close>

lemma andThen_Inr [simp]: "andThen (Inr a) f = f a"
  by (simp add: andThen_def)

lemma andThen_Inl [simp]: "andThen (Inl p) f = Inl p"
  by (simp add: andThen_def)

lemma andThen_eq_Inr: "andThen m f = Inr b \<longleftrightarrow> (\<exists>a. m = Inr a \<and> f a = Inr b)"
  by (cases m) simp_all

lemma at_in: "0 \<le> i \<Longrightarrow> i < int (length xs) \<Longrightarrow> at xs i = Inr (xs ! nat i)"
  by (simp add: at_def)

lemma assign_in: "0 \<le> i \<Longrightarrow> i < int (length xs) \<Longrightarrow> assign xs i a = Inr (xs[nat i := a])"
  by (simp add: assign_def)

lemma make_nonneg: "0 \<le> n \<Longrightarrow> make z n = Inr (replicate (nat n) z)"
  by (simp add: make_def)

lemma slice_to_in: "0 \<le> n \<Longrightarrow> n \<le> int (length xs) \<Longrightarrow> slice_to xs n = Inr (take (nat n) xs)"
  by (simp add: slice_to_def)

lemma assign2_in:
  "0 \<le> y \<Longrightarrow> y < int (length g) \<Longrightarrow> 0 \<le> x \<Longrightarrow> x < int (length (g ! nat y)) \<Longrightarrow>
   assign2 g y x a = Inr (g[nat y := (g ! nat y)[nat x := a]])"
  by (simp add: assign2_def at_in assign_in)

lemma forRange_done: "hi \<le> lo \<Longrightarrow> forRange lo hi body s = Inr s"
  by (simp add: forRange.simps)

lemma forRange_step:
  "lo < hi \<Longrightarrow> body lo s = Inr s' \<Longrightarrow> forRange lo hi body s = forRange (lo + 1) hi body s'"
  by (subst forRange.simps) simp

lemma forRange_rule:
  assumes "lo \<le> hi" and "I lo s"
    and step: "\<And>i t. lo \<le> i \<Longrightarrow> i < hi \<Longrightarrow> I i t \<Longrightarrow> \<exists>t'. body i t = Inr t' \<and> I (i + 1) t'"
  shows "\<exists>s'. forRange lo hi body s = Inr s' \<and> I hi s'"
  using assms
proof (induction "nat (hi - lo)" arbitrary: lo s)
  case 0
  then have "lo = hi" by simp
  with 0 show ?case by (simp add: forRange_done)
next
  case (Suc k)
  then have lt: "lo < hi" by simp
  from Suc.prems(3)[of lo s] lt Suc.prems(2)
  obtain t where t: "body lo s = Inr t" "I (lo + 1) t" by auto
  have "\<exists>s'. forRange (lo + 1) hi body t = Inr s' \<and> I hi s'"
  proof (rule Suc.hyps(1))
    show "k = nat (hi - (lo + 1))" using Suc.hyps(2) by simp
    show "lo + 1 \<le> hi" using lt by simp
    show "I (lo + 1) t" by (rule t)
    fix i u assume "lo + 1 \<le> i" "i < hi" "I i u"
    then show "\<exists>t'. body i u = Inr t' \<and> I (i + 1) t'"
      using Suc.prems(3)[of i u] by simp
  qed
  then show ?case using forRange_step[of lo hi body s t] lt t(1) by simp
qed


lemma fill_same [simp]: "fill lo lo z xs = xs"
  by (simp add: fill_def)

lemma length_fill [simp]: "lo \<le> hi \<Longrightarrow> hi \<le> length xs \<Longrightarrow> length (fill lo hi z xs) = length xs"
  by (simp add: fill_def)

lemma fill_step:
  assumes "lo \<le> x" "x < length xs"
  shows "(fill lo x z xs)[x := z] = fill lo (Suc x) z xs"
proof -
  have d: "drop x xs = xs ! x # drop (Suc x) xs"
    using assms by (simp add: Cons_nth_drop_Suc)
  have r: "replicate (Suc x - lo) z = replicate (x - lo) z @ [z]"
    using assms by (simp add: Suc_diff_le replicate_append_same)
  show ?thesis
    using assms by (simp add: fill_def list_update_append d r)
qed

lemma fill_all: "fill 0 (length xs) z xs = replicate (length xs) z"
  by (simp add: fill_def)

lemma clear_in:
  assumes "0 \<le> y" "y < int (length (Content v))" "y < int (length (Format v))"
    and "0 \<le> x" "x < int (length (Content v ! 0))" "x < int (length (Content v ! nat y))"
    and "x < int (length (Format v ! nat y))"
  shows "clear v y x =
    Inr (v\<lparr>Content := (Content v)[nat y := (Content v ! nat y)[nat x := 32]],
           Format := (Format v)[nat y := (Format v ! nat y)[nat x := zeroFormat]]\<rparr>)"
proof -
  have "Content v \<noteq> []" using assms(1,2) by auto
  then have "at (Content v) 0 = Inr (Content v ! 0)"
    by (simp add: at_def)
  then show ?thesis
    using assms by (simp add: clear_def assign2_in)
qed

lemma clear_row_loop:
  assumes y: "0 \<le> y" "y < int (length (Content v))" "y < int (length (Format v))"
    and x: "0 \<le> lo" "lo \<le> hi" "hi \<le> int (length (Content v ! 0))"
      "hi \<le> int (length (Content v ! nat y))" "hi \<le> int (length (Format v ! nat y))"
  shows "forRange lo hi (\<lambda>x v. clear v y x) v =
    Inr (v\<lparr>Content := (Content v)[nat y := fill (nat lo) (nat hi) 32 (Content v ! nat y)],
           Format := (Format v)[nat y := fill (nat lo) (nat hi) zeroFormat (Format v ! nat y)]\<rparr>)"
proof -
  define I where "I = (\<lambda>i t. t =
     v\<lparr>Content := (Content v)[nat y := fill (nat lo) (nat i) 32 (Content v ! nat y)],
       Format := (Format v)[nat y := fill (nat lo) (nat i) zeroFormat (Format v ! nat y)]\<rparr>)"
  have "\<exists>s'. forRange lo hi (\<lambda>x v. clear v y x) v = Inr s' \<and> I hi s'"
  proof (rule forRange_rule)
    show "lo \<le> hi" by (rule x)
    show "I lo v" by (simp add: I_def)
  next
    fix i t assume i: "lo \<le> i" "i < hi" and "I i t"
    then have t: "t =
     v\<lparr>Content := (Content v)[nat y := fill (nat lo) (nat i) 32 (Content v ! nat y)],
       Format := (Format v)[nat y := fill (nat lo) (nat i) zeroFormat (Format v ! nat y)]\<rparr>"
      by (simp add: I_def)
    have ny: "nat y < length (Content v)" "nat y < length (Format v)" using y by auto
    have ni: "nat lo \<le> nat i" "nat i \<le> length (Content v ! nat y)"
      "nat i \<le> length (Format v ! nat y)" "nat i < length (Content v ! nat y)"
      "nat i < length (Format v ! nat y)"
      using i x by auto
    have lc: "length (fill (nat lo) (nat i) 32 (Content v ! nat y)) = length (Content v ! nat y)"
      and lf: "length (fill (nat lo) (nat i) zeroFormat (Format v ! nat y)) = length (Format v ! nat y)"
      using ni by simp_all
    have len0: "i < int (length (Content t ! 0))"
      using i x y ny lc by (cases "nat y = 0") (auto simp: t nth_list_update)
    have "clear t y i = Inr (t\<lparr>Content := (Content t)[nat y := (Content t ! nat y)[nat i := 32]],
           Format := (Format t)[nat y := (Format t ! nat y)[nat i := zeroFormat]]\<rparr>)"
    proof (rule clear_in)
      show "i < int (length (Content t ! 0))" by (rule len0)
      show "i < int (length (Content t ! nat y))" using ni ny lc by (simp add: t)
      show "i < int (length (Format t ! nat y))" using ni ny lf by (simp add: t)
    qed (use i x y in \<open>simp_all add: t\<close>)
    moreover have "nat (i + 1) = Suc (nat i)" using i x by simp
    ultimately have "clear t y i = Inr (
       v\<lparr>Content := (Content v)[nat y := fill (nat lo) (nat (i + 1)) 32 (Content v ! nat y)],
       Format := (Format v)[nat y := fill (nat lo) (nat (i + 1)) zeroFormat (Format v ! nat y)]\<rparr>)"
      using ni ny by (simp add: t fill_step)
    then show "\<exists>t'. clear t y i = Inr t' \<and> I (i + 1) t'" by (simp add: I_def)
  qed
  then show ?thesis by (auto simp: I_def)
qed

section \<open>The constructor (C9)\<close>

lemma fill_replicate: "fill 0 n z (replicate n a) = replicate n z"
  by (simp add: fill_def)

lemma replicate_update_next:
  assumes "r < n"
  shows "(replicate r b @ replicate (n - r) a)[r := b] = replicate (Suc r) b @ replicate (n - Suc r) a"
proof -
  have "replicate (n - r) a = a # replicate (n - Suc r) a"
    using assms by (cases "n - r") (auto simp: Suc_diff_Suc)
  then show ?thesis
    by (simp add: list_update_append replicate_append_same)
qed

lemma replicate_update_same:
  "r < n \<Longrightarrow> (replicate n b @ rest)[r := b] = replicate n b @ rest"
  by (simp add: list_update_append list_update_same_conv)

lemma NewVT100_rows:
  assumes "0 < y" "0 < x"
  shows "forRange 0 y (\<lambda>row v.
            andThen (make 0 x) (\<lambda>r.
            andThen (assign (Content v) row r) (\<lambda>content'.
            andThen (make zeroFormat x) (\<lambda>f.
            andThen (assign (Format v) row f) (\<lambda>format'.
              forRange 0 x (\<lambda>col v. clear v row col)
                (v\<lparr>Content := content', Format := format'\<rparr>))))))
          (v\<lparr>Content := replicate (nat y) [], Format := replicate (nat y) []\<rparr>)
     = Inr (v\<lparr>Content := replicate (nat y) (replicate (nat x) 32),
              Format := replicate (nat y) (replicate (nat x) zeroFormat)\<rparr>)"
proof -
  let ?body = "\<lambda>row v.
            andThen (make 0 x) (\<lambda>r.
            andThen (assign (Content v) row r) (\<lambda>content'.
            andThen (make zeroFormat x) (\<lambda>f.
            andThen (assign (Format v) row f) (\<lambda>format'.
              forRange 0 x (\<lambda>col v. clear v row col)
                (v\<lparr>Content := content', Format := format'\<rparr>)))))"
  define I where "I = (\<lambda>r t. t =
     v\<lparr>Content := replicate (nat r) (replicate (nat x) 32) @ replicate (nat y - nat r) [],
       Format := replicate (nat r) (replicate (nat x) zeroFormat) @ replicate (nat y - nat r) []\<rparr>)"
  have "\<exists>s'. forRange 0 y ?body (v\<lparr>Content := replicate (nat y) [], Format := replicate (nat y) []\<rparr>)
           = Inr s' \<and> I y s'"
  proof (rule forRange_rule)
    show "0 \<le> y" using assms by simp
    show "I 0 (v\<lparr>Content := replicate (nat y) [], Format := replicate (nat y) []\<rparr>)"
      by (simp add: I_def)
  next
    fix r t assume r: "0 \<le> r" "r < y" and "I r t"
    then have t: "t =
     v\<lparr>Content := replicate (nat r) (replicate (nat x) 32) @ replicate (nat y - nat r) [],
       Format := replicate (nat r) (replicate (nat x) zeroFormat) @ replicate (nat y - nat r) []\<rparr>"
      by (simp add: I_def)
    have nr: "nat r < nat y" "nat (r + 1) = Suc (nat r)" using r by auto
    let ?t1 = "t\<lparr>Content := (Content t)[nat r := replicate (nat x) 0],
                 Format := (Format t)[nat r := replicate (nat x) zeroFormat]\<rparr>"
    have "nat r + (nat y - nat r) = nat y" using nr by linarith
    then have lenC: "length (Content t) = nat y" and lenF: "length (Format t) = nat y"
      by (simp_all add: t)
    have row0: "length (Content ?t1 ! 0) = nat x"
      using nr by (cases "nat r") (simp_all add: t nth_append)
    have rowr: "Content ?t1 ! nat r = replicate (nat x) 0"
      "Format ?t1 ! nat r = replicate (nat x) zeroFormat"
      using nr lenC lenF by simp_all
    have inner: "forRange 0 x (\<lambda>col v. clear v r col) ?t1 =
      Inr (?t1\<lparr>Content := (Content ?t1)[nat r := fill (nat 0) (nat x) 32 (Content ?t1 ! nat r)],
             Format := (Format ?t1)[nat r := fill (nat 0) (nat x) zeroFormat (Format ?t1 ! nat r)]\<rparr>)"
    proof (rule clear_row_loop)
      show "x \<le> int (length (Content ?t1 ! 0))" using row0 by simp
      show "x \<le> int (length (Content ?t1 ! nat r))" by (simp only: rowr) simp
      show "x \<le> int (length (Format ?t1 ! nat r))" by (simp only: rowr) simp
    qed (use r assms nr lenC lenF in simp_all)
    have "?body r t = forRange 0 x (\<lambda>col v. clear v r col) ?t1"
      using r assms nr lenC lenF by (simp add: make_nonneg assign_in)
    also have "\<dots> = Inr (v\<lparr>Content := replicate (nat (r + 1)) (replicate (nat x) 32) @ replicate (nat y - nat (r + 1)) [],
       Format := replicate (nat (r + 1)) (replicate (nat x) zeroFormat) @ replicate (nat y - nat (r + 1)) []\<rparr>)"
      unfolding inner rowr using nr
      by (simp add: t fill_replicate replicate_update_next replicate_update_same del: replicate_Suc)
    finally show "\<exists>t'. ?body r t = Inr t' \<and> I (r + 1) t'"
      by (simp add: I_def)
  qed
  then show ?thesis by (auto simp: I_def)
qed

text \<open>
  C9. \<open>NewVT100(y, x)\<close> panics exactly when \<open>y \<le> 0\<close> or \<open>x \<le> 0\<close>, with
  the invalid-dimension error. For positive dimensions it returns the terminal whose
  \<open>y\<close> rows of \<open>x\<close> cells all hold a space with the default format, with
  \<open>maxY = -1\<close>, so that \<open>UsedHeight()\<close> is 0.
\<close>

theorem NewVT100_result:
  "NewVT100 y x =
     (if y \<le> 0 \<or> x \<le> 0 then Inl (InvalidDim y x)
      else Inr \<lparr>Height = y, Width = x,
                Content = replicate (nat y) (replicate (nat x) 32),
                Format = replicate (nat y) (replicate (nat x) zeroFormat),
                Cursor = zeroCursor, AutoResizeY = False, AutoResizeX = False,
                savedCursor = zeroCursor, unparsed = [], maxY = - 1\<rparr>)
   \<and> map_sum id UsedHeight (NewVT100 y x) =
     (if y \<le> 0 \<or> x \<le> 0 then Inl (InvalidDim y x) else Inr 0)"
proof (cases "y \<le> 0 \<or> x \<le> 0")
  case True
  then show ?thesis by (simp add: NewVT100_def)
next
  case False
  then have pos: "0 < y" "0 < x" by auto
  let ?v = "\<lparr>Height = y, Width = x, Content = [], Format = [], Cursor = zeroCursor,
           AutoResizeY = False, AutoResizeX = False, savedCursor = zeroCursor,
           unparsed = [], maxY = - 1\<rparr>"
  have "NewVT100 y x = Inr (?v\<lparr>Content := replicate (nat y) (replicate (nat x) 32),
              Format := replicate (nat y) (replicate (nat x) zeroFormat)\<rparr>)"
    using NewVT100_rows[OF pos, of ?v] pos by (simp add: NewVT100_def make_nonneg)
  then show ?thesis using False by (simp add: UsedHeight_def)
qed

section \<open>Blanking cells of a rectangular grid\<close>

lemma length_mapij [simp]: "length (mapij f g) = length g"
  by (simp add: mapij_def)

lemma nth_mapij_row:
  "i < length g \<Longrightarrow> mapij f g ! i = map (\<lambda>(j, a). f i j a) (enumerate 0 (g ! i))"
  by (simp add: mapij_def nth_enumerate_eq)

lemma length_nth_mapij [simp]: "i < length g \<Longrightarrow> length (mapij f g ! i) = length (g ! i)"
  by (simp add: nth_mapij_row)

lemma nth_mapij [simp]:
  "i < length g \<Longrightarrow> j < length (g ! i) \<Longrightarrow> mapij f g ! i ! j = f i j (g ! i ! j)"
  by (simp add: nth_mapij_row nth_enumerate_eq)

lemma mapij_eqI:
  assumes "length g' = length g"
    and "\<And>i. i < length g \<Longrightarrow> length (g' ! i) = length (g ! i)"
    and "\<And>i j. i < length g \<Longrightarrow> j < length (g ! i) \<Longrightarrow> g' ! i ! j = f i j (g ! i ! j)"
  shows "g' = mapij f g"
proof (rule nth_equalityI)
  show "length g' = length (mapij f g)" using assms(1) by simp
  fix i assume "i < length g'"
  then have i: "i < length g" using assms(1) by simp
  show "g' ! i = mapij f g ! i"
    by (rule nth_equalityI) (use i assms(2,3) in simp_all)
qed

lemma mapij_id:
  assumes "\<And>i j. i < length g \<Longrightarrow> j < length (g ! i) \<Longrightarrow> f i j (g ! i ! j) = g ! i ! j"
  shows "mapij f g = g"
  by (rule mapij_eqI[symmetric]) (use assms in simp_all)

lemma mapij_cong:
  assumes "\<And>i j. i < length g \<Longrightarrow> j < length (g ! i) \<Longrightarrow> f i j (g ! i ! j) = h i j (g ! i ! j)"
  shows "mapij f g = mapij h g"
  by (rule mapij_eqI) (use assms in simp_all)

lemma mapij_mapij: "mapij f (mapij h g) = mapij (\<lambda>i j a. f i j (h i j a)) g"
  by (rule mapij_eqI) simp_all

lemma update_as_mapij:
  assumes "y < length g" "x < length (g ! y)"
  shows "g[y := (g ! y)[x := a]] = mapij (\<lambda>i j c. if i = y \<and> j = x then a else c) g"
  by (rule mapij_eqI) (use assms in \<open>auto simp: nth_list_update\<close>)

lemma rect_rows:
  "rect v n m \<Longrightarrow> i < n \<Longrightarrow> length (Content v ! i) = m \<and> length (Format v ! i) = m"
  by (simp add: rect_def list_all_length)

lemma rect_blanked [simp]: "rect (blanked P v) n m = rect v n m"
  by (auto simp: rect_def blanked_def list_all_length)

lemma blanked_frame [simp]:
  "Height (blanked P v) = Height v" "Width (blanked P v) = Width v"
  "Cursor (blanked P v) = Cursor v" "savedCursor (blanked P v) = savedCursor v"
  "maxY (blanked P v) = maxY v" "AutoResizeX (blanked P v) = AutoResizeX v"
  "AutoResizeY (blanked P v) = AutoResizeY v" "unparsed (blanked P v) = unparsed v"
  by (simp_all add: blanked_def)

lemma wf_blanked [simp]: "wf (blanked P v) = wf v"
  by (simp add: wf_def)

lemma blanked_cong:
  assumes "rect v n m"
    and "\<And>i j. 0 \<le> i \<Longrightarrow> i < int n \<Longrightarrow> 0 \<le> j \<Longrightarrow> j < int m \<Longrightarrow> P i j = Q i j"
  shows "blanked P v = blanked Q v"
proof -
  have "mapij (\<lambda>i j a. if P (int i) (int j) then 32 else a) (Content v)
      = mapij (\<lambda>i j a. if Q (int i) (int j) then 32 else a) (Content v)"
    by (rule mapij_cong) (use assms rect_rows[OF assms(1)] in \<open>auto simp: rect_def\<close>)
  moreover have "mapij (\<lambda>i j a. if P (int i) (int j) then zeroFormat else a) (Format v)
      = mapij (\<lambda>i j a. if Q (int i) (int j) then zeroFormat else a) (Format v)"
    by (rule mapij_cong) (use assms rect_rows[OF assms(1)] in \<open>auto simp: rect_def\<close>)
  ultimately show ?thesis by (simp add: blanked_def)
qed

lemma blanked_none:
  assumes "rect v n m"
    and "\<And>i j. 0 \<le> i \<Longrightarrow> i < int n \<Longrightarrow> 0 \<le> j \<Longrightarrow> j < int m \<Longrightarrow> \<not> P i j"
  shows "blanked P v = v"
proof -
  have "blanked P v = blanked (\<lambda>i j. False) v"
    by (rule blanked_cong[OF assms(1)]) (use assms(2) in simp)
  also have "\<dots> = v" by (simp add: blanked_def mapij_id)
  finally show ?thesis .
qed

lemma blanked_blanked: "blanked P (blanked Q v) = blanked (\<lambda>i j. P i j \<or> Q i j) v"
proof -
  have 1: "(\<lambda>i j a. if P (int i) (int j) then 32 else if Q (int i) (int j) then 32 else a)
         = (\<lambda>i j a::int. if P (int i) (int j) \<or> Q (int i) (int j) then 32 else a)"
    by (intro ext) simp
  have 2: "(\<lambda>i j a. if P (int i) (int j) then zeroFormat else if Q (int i) (int j) then zeroFormat else a)
         = (\<lambda>i j a. if P (int i) (int j) \<or> Q (int i) (int j) then zeroFormat else a)"
    by (intro ext) simp
  show ?thesis by (simp add: blanked_def mapij_mapij 1 2)
qed

lemma cell_blanked:
  assumes "rect v n m" "0 \<le> i" "i < int n" "0 \<le> j" "j < int m"
  shows "cell (blanked P v) i j = (if P i j then (32, zeroFormat) else cell v i j)"
proof -
  have "nat i < length (Content v)" "nat i < length (Format v)"
    using assms by (auto simp: rect_def)
  moreover have "nat j < length (Content v ! nat i)" "nat j < length (Format v ! nat i)"
    using assms rect_rows[OF assms(1), of "nat i"] by auto
  ultimately show ?thesis using assms by (simp add: cell_def blanked_def)
qed

section \<open>clear and eraseRegion on a rectangular grid\<close>

lemma clear_rect:
  assumes r: "rect v n m" and n: "0 < n"
  shows "clear v y x =
    (if int n \<le> y \<or> int m \<le> x then Inr v
     else if y < 0 \<or> x < 0 then Inl IndexOutOfRange
     else Inr (blanked (\<lambda>i j. i = y \<and> j = x) v))"
proof -
  have lens: "length (Content v) = n" "length (Format v) = n" using r by (simp_all add: rect_def)
  show ?thesis
  proof (cases "int n \<le> y")
    case True
    then show ?thesis by (simp add: clear_def lens)
  next
    case ny: False
    show ?thesis
    proof (cases "y < 0")
      case True
      have "at (Content v) 0 = Inr (Content v ! 0)" using n by (simp add: at_def lens)
      moreover have "length (Content v ! 0) = m" using rect_rows[OF r n] by simp
      moreover have "assign2 (Content v) y x 32 = Inl IndexOutOfRange"
        using True by (simp add: assign2_def at_def)
      ultimately show ?thesis using True ny by (simp add: clear_def lens)
    next
      case y0: False
      then have yn: "nat y < n" using ny by simp
      have at0: "at (Content v) 0 = Inr (Content v ! 0)" using yn by (simp add: at_def lens)
      have row0: "length (Content v ! 0) = m" using rect_rows[OF r, of 0] yn by simp
      have rowy: "length (Content v ! nat y) = m" "length (Format v ! nat y) = m"
        using rect_rows[OF r yn] by simp_all
      show ?thesis
      proof (cases "int m \<le> x")
        case True
        then show ?thesis using ny at0 row0 by (simp add: clear_def lens)
      next
        case mx: False
        show ?thesis
        proof (cases "x < 0")
          case True
          have "assign2 (Content v) y x 32 = Inl IndexOutOfRange"
            using True y0 yn by (simp add: assign2_def at_def assign_def lens)
          then show ?thesis using True ny mx at0 row0 by (simp add: clear_def lens)
        next
          case x0: False
          then have xm: "nat x < m" using mx by simp
          have "clear v y x =
            Inr (v\<lparr>Content := (Content v)[nat y := (Content v ! nat y)[nat x := 32]],
                   Format := (Format v)[nat y := (Format v ! nat y)[nat x := zeroFormat]]\<rparr>)"
            by (rule clear_in) (use y0 x0 ny mx yn xm lens row0 rowy in simp_all)
          also have "(Content v)[nat y := (Content v ! nat y)[nat x := 32]]
             = mapij (\<lambda>i j a. if int i = y \<and> int j = x then 32 else a) (Content v)"
          proof -
            have "(\<lambda>i j a. if i = nat y \<and> j = nat x then 32 else a)
              = (\<lambda>i j a::int. if int i = y \<and> int j = x then 32 else a)"
              using y0 x0 by (intro ext) auto
            then show ?thesis
              using update_as_mapij[of "nat y" "Content v" "nat x" 32] yn xm lens rowy by simp
          qed
          also have "(Format v)[nat y := (Format v ! nat y)[nat x := zeroFormat]]
             = mapij (\<lambda>i j a. if int i = y \<and> int j = x then zeroFormat else a) (Format v)"
          proof -
            have "(\<lambda>i j a. if i = nat y \<and> j = nat x then zeroFormat else a)
              = (\<lambda>i j a. if int i = y \<and> int j = x then zeroFormat else a)"
              using y0 x0 by (intro ext) auto
            then show ?thesis
              using update_as_mapij[of "nat y" "Format v" "nat x" zeroFormat] yn xm lens rowy by simp
          qed
          finally show ?thesis using ny mx y0 x0 by (simp add: blanked_def)
        qed
      qed
    qed
  qed
qed

lemma clear_rect_nonneg:
  assumes "rect v n m" "0 \<le> y" "0 \<le> x"
  shows "clear v y x = Inr (blanked (\<lambda>i j. i = y \<and> j = x) v)"
proof (cases "int n \<le> y \<or> int m \<le> x")
  case True
  have b: "blanked (\<lambda>i j. i = y \<and> j = x) v = v"
    by (intro blanked_none[OF assms(1)]) (use True in auto)
  show ?thesis
  proof (cases "n = 0")
    case True
    then have "length (Content v) = 0" using assms(1) by (simp add: rect_def)
    then show ?thesis using assms(2) b by (simp add: clear_def)
  next
    case False
    then show ?thesis using True b by (simp add: clear_rect[OF assms(1)])
  qed
next
  case False
  then have "0 < n" using assms(2) by auto
  then show ?thesis using False assms by (simp add: clear_rect[OF assms(1)])
qed

lemma clear_cols:
  assumes r: "rect v n m" and y: "0 \<le> y" and lo: "0 \<le> lo"
  shows "forRange lo hi (\<lambda>x v. clear v y x) v = Inr (blanked (\<lambda>i j. i = y \<and> lo \<le> j \<and> j < hi) v)"
proof (cases "lo \<le> hi")
  case False
  then have "blanked (\<lambda>i j. i = y \<and> lo \<le> j \<and> j < hi) v = v"
    by (intro blanked_none[OF r]) auto
  then show ?thesis using False by (simp add: forRange_done)
next
  case True
  define I where "I = (\<lambda>x t. t = blanked (\<lambda>i j. i = y \<and> lo \<le> j \<and> j < x) v)"
  have "\<exists>s'. forRange lo hi (\<lambda>x v. clear v y x) v = Inr s' \<and> I hi s'"
  proof (rule forRange_rule)
    show "lo \<le> hi" by (rule True)
    have "blanked (\<lambda>i j. i = y \<and> lo \<le> j \<and> j < lo) v = v"
      by (intro blanked_none[OF r]) auto
    then show "I lo v" by (simp add: I_def)
  next
    fix x t assume x: "lo \<le> x" "x < hi" and "I x t"
    then have t: "t = blanked (\<lambda>i j. i = y \<and> lo \<le> j \<and> j < x) v" by (simp add: I_def)
    have "rect t n m" using r by (simp add: t)
    then have "clear t y x = Inr (blanked (\<lambda>i j. i = y \<and> j = x) t)"
      using y lo x by (intro clear_rect_nonneg) auto
    also have "blanked (\<lambda>i j. i = y \<and> j = x) t = blanked (\<lambda>i j. i = y \<and> lo \<le> j \<and> j < x + 1) v"
      unfolding t blanked_blanked by (rule blanked_cong[OF r]) (use x in auto)
    finally show "\<exists>t'. clear t y x = Inr t' \<and> I (x + 1) t'" by (simp add: I_def)
  qed
  then show ?thesis by (auto simp: I_def)
qed

lemma clear_rows_cols:
  assumes r: "rect v n m" and lo: "0 \<le> ylo" "0 \<le> xlo"
  shows "forRange ylo yhi (\<lambda>y v. forRange xlo xhi (\<lambda>x v. clear v y x) v) v
     = Inr (blanked (\<lambda>i j. ylo \<le> i \<and> i < yhi \<and> xlo \<le> j \<and> j < xhi) v)"
proof (cases "ylo \<le> yhi")
  case False
  then have "blanked (\<lambda>i j. ylo \<le> i \<and> i < yhi \<and> xlo \<le> j \<and> j < xhi) v = v"
    by (intro blanked_none[OF r]) auto
  then show ?thesis using False by (simp add: forRange_done)
next
  case True
  define I where "I = (\<lambda>y t. t = blanked (\<lambda>i j. ylo \<le> i \<and> i < y \<and> xlo \<le> j \<and> j < xhi) v)"
  have "\<exists>s'. forRange ylo yhi (\<lambda>y v. forRange xlo xhi (\<lambda>x v. clear v y x) v) v = Inr s' \<and> I yhi s'"
  proof (rule forRange_rule)
    show "ylo \<le> yhi" by (rule True)
    have "blanked (\<lambda>i j. ylo \<le> i \<and> i < ylo \<and> xlo \<le> j \<and> j < xhi) v = v"
      by (intro blanked_none[OF r]) auto
    then show "I ylo v" by (simp add: I_def)
  next
    fix y t assume y: "ylo \<le> y" "y < yhi" and "I y t"
    then have t: "t = blanked (\<lambda>i j. ylo \<le> i \<and> i < y \<and> xlo \<le> j \<and> j < xhi) v" by (simp add: I_def)
    have "rect t n m" using r by (simp add: t)
    then have "forRange xlo xhi (\<lambda>x v. clear v y x) t
       = Inr (blanked (\<lambda>i j. i = y \<and> xlo \<le> j \<and> j < xhi) t)"
      using y lo by (intro clear_cols) auto
    also have "blanked (\<lambda>i j. i = y \<and> xlo \<le> j \<and> j < xhi) t
       = blanked (\<lambda>i j. ylo \<le> i \<and> i < y + 1 \<and> xlo \<le> j \<and> j < xhi) v"
      unfolding t blanked_blanked by (rule blanked_cong[OF r]) (use y in auto)
    finally show "\<exists>t'. forRange xlo xhi (\<lambda>x v. clear v y x) t = Inr t' \<and> I (y + 1) t'"
      by (simp add: I_def)
  qed
  then show ?thesis by (auto simp: I_def)
qed

lemma eraseRegion_rect:
  assumes r: "rect v n m" and nonneg: "0 \<le> y1" "0 \<le> x1" "0 \<le> y2" "0 \<le> x2"
  shows "eraseRegion v y1 x1 y2 x2 =
    Inr (blanked (\<lambda>i j. min y1 y2 \<le> i \<and> i \<le> max y1 y2 \<and> min x1 x2 \<le> j \<and> j \<le> max x1 x2) v)"
proof -
  have "eraseRegion v y1 x1 y2 x2 =
     forRange (min y1 y2) (max y1 y2 + 1)
       (\<lambda>y v. forRange (min x1 x2) (max x1 x2 + 1) (\<lambda>x v. clear v y x) v) v"
    by (auto simp: eraseRegion_def min_def max_def)
  also have "\<dots> = Inr (blanked (\<lambda>i j. min y1 y2 \<le> i \<and> i < max y1 y2 + 1
                                    \<and> min x1 x2 \<le> j \<and> j < max x1 x2 + 1) v)"
    by (rule clear_rows_cols[OF r]) (use nonneg in auto)
  also have "blanked (\<lambda>i j. min y1 y2 \<le> i \<and> i < max y1 y2 + 1 \<and> min x1 x2 \<le> j \<and> j < max x1 x2 + 1) v
     = blanked (\<lambda>i j. min y1 y2 \<le> i \<and> i \<le> max y1 y2 \<and> min x1 x2 \<le> j \<and> j \<le> max x1 x2) v"
    by (rule blanked_cong[OF r]) auto
  finally show ?thesis .
qed

section \<open>clear and eraseRegion at the bounds (C4)\<close>

lemma wf_rect: "wf v \<Longrightarrow> rect v (nat (Height v)) (nat (Width v))"
  by (simp add: wf_def)

text \<open>
  C4. The claim is that \<open>clear(y, x)\<close> sets the cell when the coordinates are in bounds
  and is a no-op for every other pair, negative coordinates included, so that
  \<open>eraseRegion\<close> is total. The bounds check of \<open>clear\<close> only compares with the
  upper bounds: on a 1 x 1 terminal \<open>clear(-1, 0)\<close> indexes row -1 and panics, and so
  does \<open>eraseRegion(-1, 0, 0, 0)\<close>.
\<close>

theorem clear_negative_row_panics:
  "andThen (NewVT100 1 1) (\<lambda>v. clear v (- 1) 0) = Inl IndexOutOfRange
   \<and> andThen (NewVT100 1 1) (\<lambda>v. eraseRegion v (- 1) 0 0 0) = Inl IndexOutOfRange"
  by code_simp

text \<open>
  C4, as amended. On a well-formed grid \<open>clear(y, x)\<close> leaves the terminal unchanged
  when \<open>y \<ge> height\<close> or \<open>x \<ge> width\<close>; otherwise it panics when a coordinate is
  negative, and sets the cell to a space with the default format when both are in
  bounds. \<open>eraseRegion\<close> returns for every rectangle with non-negative corners, and
  blanks exactly the cells of the rectangle that lie on the grid.
\<close>

theorem clear_and_eraseRegion_on_grid:
  assumes "wf v"
  shows "clear v y x =
      (if Height v \<le> y \<or> Width v \<le> x then Inr v
       else if y < 0 \<or> x < 0 then Inl IndexOutOfRange
       else Inr (v\<lparr>Content := (Content v)[nat y := (Content v ! nat y)[nat x := 32]],
                   Format := (Format v)[nat y := (Format v ! nat y)[nat x := zeroFormat]]\<rparr>))
    \<and> (0 \<le> y1 \<and> 0 \<le> x1 \<and> 0 \<le> y2 \<and> 0 \<le> x2 \<longrightarrow>
        (\<exists>v'. eraseRegion v y1 x1 y2 x2 = Inr v' \<and> wf v'
           \<and> v' = v\<lparr>Content := Content v', Format := Format v'\<rparr>
           \<and> (\<forall>i j. 0 \<le> i \<and> i < Height v \<and> 0 \<le> j \<and> j < Width v \<longrightarrow>
                 cell v' i j =
                   (if min y1 y2 \<le> i \<and> i \<le> max y1 y2 \<and> min x1 x2 \<le> j \<and> j \<le> max x1 x2
                    then (32, zeroFormat) else cell v i j))))"
proof (intro conjI impI)
  have r: "rect v (nat (Height v)) (nat (Width v))" and pos: "1 \<le> Height v" "1 \<le> Width v"
    using assms by (simp_all add: wf_def)
  have c: "clear v y x =
    (if int (nat (Height v)) \<le> y \<or> int (nat (Width v)) \<le> x then Inr v
     else if y < 0 \<or> x < 0 then Inl IndexOutOfRange
     else Inr (blanked (\<lambda>i j. i = y \<and> j = x) v))"
    by (rule clear_rect[OF r]) (use pos in simp)
  show "clear v y x =
      (if Height v \<le> y \<or> Width v \<le> x then Inr v
       else if y < 0 \<or> x < 0 then Inl IndexOutOfRange
       else Inr (v\<lparr>Content := (Content v)[nat y := (Content v ! nat y)[nat x := 32]],
                   Format := (Format v)[nat y := (Format v ! nat y)[nat x := zeroFormat]]\<rparr>))"
  proof (cases "0 \<le> y \<and> y < Height v \<and> 0 \<le> x \<and> x < Width v")
    case True
    then have "nat y < nat (Height v)" "0 < nat (Height v)" by simp_all
    from rect_rows[OF r this(1)] rect_rows[OF r this(2)] r True show ?thesis
      by (intro trans[OF clear_in]) (auto simp: rect_def)
  next
    case False
    then show ?thesis using c pos by auto
  qed
next
  assume nonneg: "0 \<le> y1 \<and> 0 \<le> x1 \<and> 0 \<le> y2 \<and> 0 \<le> x2"
  have r: "rect v (nat (Height v)) (nat (Width v))" using assms by (simp add: wf_def)
  let ?P = "\<lambda>i j. min y1 y2 \<le> i \<and> i \<le> max y1 y2 \<and> min x1 x2 \<le> j \<and> j \<le> max x1 x2"
  have e: "eraseRegion v y1 x1 y2 x2 = Inr (blanked ?P v)"
    by (rule eraseRegion_rect[OF r]) (use nonneg in simp_all)
  have "\<forall>i j. 0 \<le> i \<and> i < Height v \<and> 0 \<le> j \<and> j < Width v \<longrightarrow>
      cell (blanked ?P v) i j = (if ?P i j then (32, zeroFormat) else cell v i j)"
    using cell_blanked[OF r] by simp
  moreover have "blanked ?P v = v\<lparr>Content := Content (blanked ?P v), Format := Format (blanked ?P v)\<rparr>"
    by (simp add: blanked_def)
  ultimately show "\<exists>v'. eraseRegion v y1 x1 y2 x2 = Inr v' \<and> wf v'
           \<and> v' = v\<lparr>Content := Content v', Format := Format v'\<rparr>
           \<and> (\<forall>i j. 0 \<le> i \<and> i < Height v \<and> 0 \<le> j \<and> j < Width v \<longrightarrow>
                 cell v' i j = (if ?P i j then (32, zeroFormat) else cell v i j))"
    using e assms by (intro exI[of _ "blanked ?P v"]) simp
qed


lemma wf_testEraseTerminal: "wf testEraseTerminal"
  by code_simp

theorem clear_and_eraseRegion_on_grid_witness:
  "wf testEraseTerminal
   \<and> clear testEraseTerminal 1 2 =
       Inr (testEraseTerminal\<lparr>
         Content := (Content testEraseTerminal)[nat 1 := (Content testEraseTerminal ! nat 1)[nat 2 := 32]],
         Format := (Format testEraseTerminal)[nat 1 := (Format testEraseTerminal ! nat 1)[nat 2 := zeroFormat]]\<rparr>)
   \<and> clear testEraseTerminal 3 0 = Inr testEraseTerminal
   \<and> (\<exists>v'. eraseRegion testEraseTerminal 0 1 1 2 = Inr v' \<and> wf v'
           \<and> v' = testEraseTerminal\<lparr>Content := Content v', Format := Format v'\<rparr>
           \<and> (\<forall>i j. 0 \<le> i \<and> i < Height testEraseTerminal \<and> 0 \<le> j \<and> j < Width testEraseTerminal \<longrightarrow>
                 cell v' i j =
                   (if min 0 1 \<le> i \<and> i \<le> max 0 1 \<and> min 1 2 \<le> j \<and> j \<le> max 1 2
                    then (32, zeroFormat) else cell testEraseTerminal i j)))"
proof -
  note h = wf_testEraseTerminal
  have d: "Height testEraseTerminal = 3" "Width testEraseTerminal = 4"
    by (simp_all add: testEraseTerminal_def)
  have a: "clear testEraseTerminal 1 2 =
       Inr (testEraseTerminal\<lparr>
         Content := (Content testEraseTerminal)[nat 1 := (Content testEraseTerminal ! nat 1)[nat 2 := 32]],
         Format := (Format testEraseTerminal)[nat 1 := (Format testEraseTerminal ! nat 1)[nat 2 := zeroFormat]]\<rparr>)"
    using clear_and_eraseRegion_on_grid[OF h, of 1 2] by (simp add: d)
  have b: "clear testEraseTerminal 3 0 = Inr testEraseTerminal"
    using clear_and_eraseRegion_on_grid[OF h, of 3 0] by (simp add: d)
  have c: "\<exists>v'. eraseRegion testEraseTerminal 0 1 1 2 = Inr v' \<and> wf v'
           \<and> v' = testEraseTerminal\<lparr>Content := Content v', Format := Format v'\<rparr>
           \<and> (\<forall>i j. 0 \<le> i \<and> i < Height testEraseTerminal \<and> 0 \<le> j \<and> j < Width testEraseTerminal \<longrightarrow>
                 cell v' i j =
                   (if min 0 1 \<le> i \<and> i \<le> max 0 1 \<and> min 1 2 \<le> j \<and> j \<le> max 1 2
                    then (32, zeroFormat) else cell testEraseTerminal i j))"
  proof -
    have n: "(0::int) \<le> 0 \<and> (0::int) \<le> 1 \<and> (0::int) \<le> 1 \<and> (0::int) \<le> 2" by simp
    show ?thesis
      by (rule mp[OF conjunct2[OF clear_and_eraseRegion_on_grid[OF h, of 0 0 0 1 1 2]] n])
  qed
  show ?thesis using h a b c by blast
qed

section \<open>The erase commands\<close>

lemma eraseLines_blanked:
  assumes "wf v" "0 \<le> Y (Cursor v)" "Y (Cursor v) < Height v"
  shows "eraseLines v d = Inr (blanked (linesRegion v d) v)"
proof -
  have r: "rect v (nat (Height v)) (nat (Width v))" and pos: "1 \<le> Height v" "1 \<le> Width v"
    using assms by (simp_all add: wf_def)
  consider "d = eraseBack" | "d = eraseForward" | "d = eraseAll"
    | "d \<noteq> eraseBack" "d \<noteq> eraseForward" "d \<noteq> eraseAll" by blast
  then show ?thesis
  proof cases
    case 1
    have "eraseLines v d = eraseRegion v 0 0 (Y (Cursor v)) (Width v - 1)"
      using 1 by (simp add: eraseLines_def)
    also have "\<dots> = Inr (blanked (\<lambda>i j. min 0 (Y (Cursor v)) \<le> i \<and> i \<le> max 0 (Y (Cursor v))
                  \<and> min 0 (Width v - 1) \<le> j \<and> j \<le> max 0 (Width v - 1)) v)"
      by (rule eraseRegion_rect[OF r]) (use assms pos in simp_all)
    also have "blanked (\<lambda>i j. min 0 (Y (Cursor v)) \<le> i \<and> i \<le> max 0 (Y (Cursor v))
                  \<and> min 0 (Width v - 1) \<le> j \<and> j \<le> max 0 (Width v - 1)) v
        = blanked (linesRegion v d) v"
      by (rule blanked_cong[OF r]) (use assms pos 1 in \<open>auto simp: linesRegion_def\<close>)
    finally show ?thesis .
  next
    case 2
    have "eraseLines v d = eraseRegion v (Y (Cursor v)) 0 (Height v - 1) (Width v - 1)"
      using 2 by (simp add: eraseLines_def eraseForward_def eraseBack_def)
    also have "\<dots> = Inr (blanked (\<lambda>i j. min (Y (Cursor v)) (Height v - 1) \<le> i
                  \<and> i \<le> max (Y (Cursor v)) (Height v - 1)
                  \<and> min 0 (Width v - 1) \<le> j \<and> j \<le> max 0 (Width v - 1)) v)"
      by (rule eraseRegion_rect[OF r]) (use assms pos in simp_all)
    also have "blanked (\<lambda>i j. min (Y (Cursor v)) (Height v - 1) \<le> i
                  \<and> i \<le> max (Y (Cursor v)) (Height v - 1)
                  \<and> min 0 (Width v - 1) \<le> j \<and> j \<le> max 0 (Width v - 1)) v
        = blanked (linesRegion v d) v"
      by (rule blanked_cong[OF r])
        (use assms pos 2 in \<open>auto simp: linesRegion_def eraseForward_def eraseBack_def\<close>)
    finally show ?thesis .
  next
    case 3
    have "eraseLines v d = eraseRegion v 0 0 (Height v - 1) (Width v - 1)"
      using 3 by (simp add: eraseLines_def eraseForward_def eraseBack_def eraseAll_def)
    also have "\<dots> = Inr (blanked (\<lambda>i j. min 0 (Height v - 1) \<le> i \<and> i \<le> max 0 (Height v - 1)
                  \<and> min 0 (Width v - 1) \<le> j \<and> j \<le> max 0 (Width v - 1)) v)"
      by (rule eraseRegion_rect[OF r]) (use assms pos in simp_all)
    also have "blanked (\<lambda>i j. min 0 (Height v - 1) \<le> i \<and> i \<le> max 0 (Height v - 1)
                  \<and> min 0 (Width v - 1) \<le> j \<and> j \<le> max 0 (Width v - 1)) v
        = blanked (linesRegion v d) v"
      by (rule blanked_cong[OF r])
        (use assms pos 3 in \<open>auto simp: linesRegion_def eraseForward_def eraseBack_def eraseAll_def\<close>)
    finally show ?thesis .
  next
    case 4
    then have "blanked (linesRegion v d) v = v"
      by (intro blanked_none[OF r]) (simp add: linesRegion_def)
    then show ?thesis using 4 by (simp add: eraseLines_def)
  qed
qed

lemma eraseColumns_blanked:
  assumes "wf v" "0 \<le> Y (Cursor v)" "0 \<le> X (Cursor v)" "X (Cursor v) < Width v"
  shows "eraseColumns v d = Inr (blanked (columnsRegion v d) v)"
proof -
  have r: "rect v (nat (Height v)) (nat (Width v))" and pos: "1 \<le> Height v" "1 \<le> Width v"
    using assms by (simp_all add: wf_def)
  consider "d = eraseBack" | "d = eraseForward" | "d = eraseAll"
    | "d \<noteq> eraseBack" "d \<noteq> eraseForward" "d \<noteq> eraseAll" by blast
  then show ?thesis
  proof cases
    case 1
    have "eraseColumns v d = eraseRegion v (Y (Cursor v)) 0 (Y (Cursor v)) (X (Cursor v))"
      using 1 by (simp add: eraseColumns_def Let_def)
    also have "\<dots> = Inr (blanked (\<lambda>i j. min (Y (Cursor v)) (Y (Cursor v)) \<le> i
                  \<and> i \<le> max (Y (Cursor v)) (Y (Cursor v))
                  \<and> min 0 (X (Cursor v)) \<le> j \<and> j \<le> max 0 (X (Cursor v))) v)"
      by (rule eraseRegion_rect[OF r]) (use assms pos in simp_all)
    also have "blanked (\<lambda>i j. min (Y (Cursor v)) (Y (Cursor v)) \<le> i
                  \<and> i \<le> max (Y (Cursor v)) (Y (Cursor v))
                  \<and> min 0 (X (Cursor v)) \<le> j \<and> j \<le> max 0 (X (Cursor v))) v
        = blanked (columnsRegion v d) v"
      by (rule blanked_cong[OF r]) (use assms pos 1 in \<open>auto simp: columnsRegion_def\<close>)
    finally show ?thesis .
  next
    case 2
    have "eraseColumns v d = eraseRegion v (Y (Cursor v)) (X (Cursor v)) (Y (Cursor v)) (Width v - 1)"
      using 2 by (simp add: eraseColumns_def Let_def eraseForward_def eraseBack_def)
    also have "\<dots> = Inr (blanked (\<lambda>i j. min (Y (Cursor v)) (Y (Cursor v)) \<le> i
                  \<and> i \<le> max (Y (Cursor v)) (Y (Cursor v))
                  \<and> min (X (Cursor v)) (Width v - 1) \<le> j \<and> j \<le> max (X (Cursor v)) (Width v - 1)) v)"
      by (rule eraseRegion_rect[OF r]) (use assms pos in simp_all)
    also have "blanked (\<lambda>i j. min (Y (Cursor v)) (Y (Cursor v)) \<le> i
                  \<and> i \<le> max (Y (Cursor v)) (Y (Cursor v))
                  \<and> min (X (Cursor v)) (Width v - 1) \<le> j \<and> j \<le> max (X (Cursor v)) (Width v - 1)) v
        = blanked (columnsRegion v d) v"
      by (rule blanked_cong[OF r])
        (use assms pos 2 in \<open>auto simp: columnsRegion_def eraseForward_def eraseBack_def\<close>)
    finally show ?thesis .
  next
    case 3
    have "eraseColumns v d = eraseRegion v (Y (Cursor v)) 0 (Y (Cursor v)) (Width v - 1)"
      using 3 by (simp add: eraseColumns_def Let_def eraseForward_def eraseBack_def eraseAll_def)
    also have "\<dots> = Inr (blanked (\<lambda>i j. min (Y (Cursor v)) (Y (Cursor v)) \<le> i
                  \<and> i \<le> max (Y (Cursor v)) (Y (Cursor v))
                  \<and> min 0 (Width v - 1) \<le> j \<and> j \<le> max 0 (Width v - 1)) v)"
      by (rule eraseRegion_rect[OF r]) (use assms pos in simp_all)
    also have "blanked (\<lambda>i j. min (Y (Cursor v)) (Y (Cursor v)) \<le> i
                  \<and> i \<le> max (Y (Cursor v)) (Y (Cursor v))
                  \<and> min 0 (Width v - 1) \<le> j \<and> j \<le> max 0 (Width v - 1)) v
        = blanked (columnsRegion v d) v"
      by (rule blanked_cong[OF r])
        (use assms pos 3 in \<open>auto simp: columnsRegion_def eraseForward_def eraseBack_def eraseAll_def\<close>)
    finally show ?thesis .
  next
    case 4
    then have "blanked (columnsRegion v d) v = v"
      by (intro blanked_none[OF r]) (simp add: columnsRegion_def)
    then show ?thesis using 4 by (simp add: eraseColumns_def Let_def)
  qed
qed


section \<open>Erase in display\<close>

text \<open>
  With the cursor in a row \<open>y\<close> of the grid, \<open>eraseLines\<close> sets exactly these cells
  to a space with the default format and leaves the rune and the format of every other
  cell as they were: direction 0 the rows from \<open>y\<close> to the last one, direction 1 the
  rows from the first one to \<open>y\<close>, direction 2 every row; every column of the cursor
  row is included in all three.
\<close>

lemma eraseLines_clears_exactly:
  assumes "wf v" "0 \<le> Y (Cursor v)" "Y (Cursor v) < Height v"
  shows "\<exists>v0 v1 v2.
      eraseLines v 0 = Inr v0 \<and> eraseLines v 1 = Inr v1 \<and> eraseLines v 2 = Inr v2
    \<and> wf v0 \<and> wf v1 \<and> wf v2
    \<and> (\<forall>i j. 0 \<le> i \<and> i < Height v \<and> 0 \<le> j \<and> j < Width v \<longrightarrow>
         cell v0 i j = (if Y (Cursor v) \<le> i then (32, zeroFormat) else cell v i j)
       \<and> cell v1 i j = (if i \<le> Y (Cursor v) then (32, zeroFormat) else cell v i j)
       \<and> cell v2 i j = (32, zeroFormat))"
proof -
  have r: "rect v (nat (Height v)) (nat (Width v))" using assms by (simp add: wf_def)
  have c: "\<And>d i j. 0 \<le> i \<Longrightarrow> i < Height v \<Longrightarrow> 0 \<le> j \<Longrightarrow> j < Width v \<Longrightarrow>
     cell (blanked (linesRegion v d) v) i j
       = (if linesRegion v d i j then (32, zeroFormat) else cell v i j)"
    using cell_blanked[OF r] by simp
  show ?thesis
  proof (intro exI conjI allI impI)
    show "eraseLines v 0 = Inr (blanked (linesRegion v 0) v)"
      "eraseLines v 1 = Inr (blanked (linesRegion v 1) v)"
      "eraseLines v 2 = Inr (blanked (linesRegion v 2) v)"
      by (rule eraseLines_blanked[OF assms])+
    show "wf (blanked (linesRegion v 0) v)" "wf (blanked (linesRegion v 1) v)"
      "wf (blanked (linesRegion v 2) v)"
      using assms(1) by simp_all
  next
    fix i j assume b: "0 \<le> i \<and> i < Height v \<and> 0 \<le> j \<and> j < Width v"
    then show "cell (blanked (linesRegion v 0) v) i j
        = (if Y (Cursor v) \<le> i then (32, zeroFormat) else cell v i j)"
      using c[of i j 0]
      by (simp add: linesRegion_def eraseForward_def eraseBack_def eraseAll_def)
    from b show "cell (blanked (linesRegion v 1) v) i j
        = (if i \<le> Y (Cursor v) then (32, zeroFormat) else cell v i j)"
      using c[of i j 1]
      by (simp add: linesRegion_def eraseForward_def eraseBack_def eraseAll_def)
    from b show "cell (blanked (linesRegion v 2) v) i j = (32, zeroFormat)"
      using c[of i j 2]
      by (simp add: linesRegion_def eraseForward_def eraseBack_def eraseAll_def)
  qed
qed

section \<open>What the erase commands leave alone (C10)\<close>

text \<open>
  C10. With the cursor on the grid, \<open>eraseColumns\<close> (CSI K) and \<open>eraseLines\<close>
  (CSI J) return, in every direction, a terminal with the same cursor (position and
  format), height, width, saved cursor and \<open>maxY\<close>, and with the same rune and format
  in every cell outside the erased rectangle.
\<close>

theorem erase_frame:
  assumes "wf v" "0 \<le> Y (Cursor v)" "Y (Cursor v) < Height v"
    and "0 \<le> X (Cursor v)" "X (Cursor v) < Width v"
  shows "(\<exists>v'. eraseColumns v d = Inr v'
          \<and> Cursor v' = Cursor v \<and> Height v' = Height v \<and> Width v' = Width v
          \<and> savedCursor v' = savedCursor v \<and> maxY v' = maxY v \<and> wf v'
          \<and> (\<forall>i j. 0 \<le> i \<and> i < Height v \<and> 0 \<le> j \<and> j < Width v \<and> \<not> columnsRegion v d i j
                 \<longrightarrow> cell v' i j = cell v i j))
       \<and> (\<exists>v'. eraseLines v d = Inr v'
          \<and> Cursor v' = Cursor v \<and> Height v' = Height v \<and> Width v' = Width v
          \<and> savedCursor v' = savedCursor v \<and> maxY v' = maxY v \<and> wf v'
          \<and> (\<forall>i j. 0 \<le> i \<and> i < Height v \<and> 0 \<le> j \<and> j < Width v \<and> \<not> linesRegion v d i j
                 \<longrightarrow> cell v' i j = cell v i j))"
proof -
  have r: "rect v (nat (Height v)) (nat (Width v))" using assms by (simp add: wf_def)
  have c: "\<And>P i j. 0 \<le> i \<and> i < Height v \<and> 0 \<le> j \<and> j < Width v \<and> \<not> P i j \<Longrightarrow>
     cell (blanked P v) i j = cell v i j"
    using cell_blanked[OF r] by simp
  have "eraseColumns v d = Inr (blanked (columnsRegion v d) v)"
    by (rule eraseColumns_blanked) (use assms in simp_all)
  moreover have "eraseLines v d = Inr (blanked (linesRegion v d) v)"
    by (rule eraseLines_blanked) (use assms in simp_all)
  ultimately show ?thesis using assms(1) c by simp
qed

theorem erase_frame_witness:
  "wf testEraseTerminal \<and> 0 \<le> Y (Cursor testEraseTerminal)
   \<and> Y (Cursor testEraseTerminal) < Height testEraseTerminal
   \<and> 0 \<le> X (Cursor testEraseTerminal) \<and> X (Cursor testEraseTerminal) < Width testEraseTerminal
   \<and> (\<exists>v'. eraseColumns testEraseTerminal 0 = Inr v'
          \<and> Cursor v' = Cursor testEraseTerminal \<and> Height v' = Height testEraseTerminal
          \<and> Width v' = Width testEraseTerminal
          \<and> savedCursor v' = savedCursor testEraseTerminal \<and> maxY v' = maxY testEraseTerminal
          \<and> wf v'
          \<and> (\<forall>i j. 0 \<le> i \<and> i < Height testEraseTerminal \<and> 0 \<le> j \<and> j < Width testEraseTerminal
                   \<and> \<not> columnsRegion testEraseTerminal 0 i j
                 \<longrightarrow> cell v' i j = cell testEraseTerminal i j))
   \<and> (\<exists>v'. eraseLines testEraseTerminal 0 = Inr v'
          \<and> Cursor v' = Cursor testEraseTerminal \<and> Height v' = Height testEraseTerminal
          \<and> Width v' = Width testEraseTerminal
          \<and> savedCursor v' = savedCursor testEraseTerminal \<and> maxY v' = maxY testEraseTerminal
          \<and> wf v'
          \<and> (\<forall>i j. 0 \<le> i \<and> i < Height testEraseTerminal \<and> 0 \<le> j \<and> j < Width testEraseTerminal
                   \<and> \<not> linesRegion testEraseTerminal 0 i j
                 \<longrightarrow> cell v' i j = cell testEraseTerminal i j))
   \<and> map_sum id (\<lambda>v. (Content v, Cursor v)) (eraseColumns testEraseTerminal 0)
       = Inr ([[97, 98, 99, 100], [101, 102, 32, 32], [105, 106, 107, 108]],
              \<lparr>Y = 1, X = 2, F = zeroFormat\<rparr>)"
proof -
  have h: "0 \<le> Y (Cursor testEraseTerminal)"
    "Y (Cursor testEraseTerminal) < Height testEraseTerminal"
    "0 \<le> X (Cursor testEraseTerminal)" "X (Cursor testEraseTerminal) < Width testEraseTerminal"
    by (simp_all add: testEraseTerminal_def)
  have e: "map_sum id (\<lambda>v. (Content v, Cursor v)) (eraseColumns testEraseTerminal 0)
       = Inr ([[97, 98, 99, 100], [101, 102, 32, 32], [105, 106, 107, 108]],
              \<lparr>Y = 1, X = 2, F = zeroFormat\<rparr>)"
    by code_simp
  show ?thesis
    using wf_testEraseTerminal h e erase_frame[OF wf_testEraseTerminal h, of 0]
    by blast
qed

section \<open>resize on a well-formed terminal\<close>

lemma append_update_last: "(xs @ [a])[length xs := b] = xs @ [b]"
  by (simp add: list_update_append)

lemma map_take_step:
  assumes "i < length xs"
  shows "(map f (take i xs) @ drop i xs)[i := f (xs ! i)] = map f (take (Suc i) xs) @ drop (Suc i) xs"
proof -
  have "drop i xs = xs ! i # drop (Suc i) xs" using assms by (simp add: Cons_nth_drop_Suc)
  then show ?thesis using assms
    by (simp add: list_update_append take_Suc_conv_app_nth)
qed

lemma nth_map_take_drop:
  "i < length xs \<Longrightarrow> (map f (take i xs) @ drop i xs) ! i = xs ! i"
  by (simp add: nth_append)

text \<open>A loop that replaces row after row of both grids.\<close>

lemma rows_loop:
  assumes len: "length (Content v) = n" "length (Format v) = n"
    and step: "\<And>i t. 0 \<le> i \<Longrightarrow> i < int n \<Longrightarrow>
       t = v\<lparr>Content := map f (take (nat i) (Content v)) @ drop (nat i) (Content v),
             Format := map g (take (nat i) (Format v)) @ drop (nat i) (Format v)\<rparr> \<Longrightarrow>
       body i t = Inr (t\<lparr>Content := (Content t)[nat i := f (Content v ! nat i)],
                         Format := (Format t)[nat i := g (Format v ! nat i)]\<rparr>)"
  shows "forRange 0 (int n) body v = Inr (v\<lparr>Content := map f (Content v), Format := map g (Format v)\<rparr>)"
proof -
  define I where "I = (\<lambda>i t. t =
     v\<lparr>Content := map f (take (nat i) (Content v)) @ drop (nat i) (Content v),
       Format := map g (take (nat i) (Format v)) @ drop (nat i) (Format v)\<rparr>)"
  have "\<exists>s'. forRange 0 (int n) body v = Inr s' \<and> I (int n) s'"
  proof (rule forRange_rule)
    show "0 \<le> int n" by simp
    show "I 0 v" by (simp add: I_def)
  next
    fix i t assume i: "0 \<le> i" "i < int n" and "I i t"
    then have t: "t = v\<lparr>Content := map f (take (nat i) (Content v)) @ drop (nat i) (Content v),
             Format := map g (take (nat i) (Format v)) @ drop (nat i) (Format v)\<rparr>"
      by (simp add: I_def)
    have ni: "nat i < length (Content v)" "nat i < length (Format v)" "nat (i + 1) = Suc (nat i)"
      using i len by auto
    have "body i t = Inr (t\<lparr>Content := (Content t)[nat i := f (Content v ! nat i)],
                         Format := (Format t)[nat i := g (Format v ! nat i)]\<rparr>)"
      by (rule step[OF i t])
    also have "\<dots> = Inr (v\<lparr>Content := map f (take (nat (i + 1)) (Content v)) @ drop (nat (i + 1)) (Content v),
             Format := map g (take (nat (i + 1)) (Format v)) @ drop (nat (i + 1)) (Format v)\<rparr>)"
      using ni(1,2) unfolding ni(3) by (simp add: t map_take_step)
    finally show "\<exists>t'. body i t = Inr t' \<and> I (i + 1) t'" by (simp add: I_def)
  qed
  then show ?thesis using len by (auto simp: I_def)
qed


lemma fit_longer:
  "length xs \<le> n \<Longrightarrow> fit n z xs = xs @ replicate (n - length xs) z"
  by (simp add: fit_def)

lemma fit_shorter: "n \<le> length xs \<Longrightarrow> fit n z xs = take n xs"
  by (simp add: fit_def)

lemma fit_same [simp]: "fit (length xs) z xs = xs"
  by (simp add: fit_def)

lemma length_fit [simp]: "length (fit n z xs) = n"
  by (simp add: fit_def)

lemma fill_padding:
  "fill (length xs) (length xs + k) z (xs @ replicate k a) = xs @ replicate k z"
  by (simp add: fill_def)

lemma copy_into_longer:
  "length xs \<le> n \<Longrightarrow> copy (replicate n a) xs = xs @ replicate (n - length xs) a"
  by (simp add: copy_def)

lemma widen_rows:
  assumes r: "rect v n m" and wd: "Width v = int m" and w: "int m < w"
  shows "forRange 0 (int (length (Content v))) (\<lambda>i v.
            andThen (make 0 w) (\<lambda>row.
            andThen (at (Content v) i) (\<lambda>old.
            andThen (assign (Content v) i (copy row old)) (\<lambda>content'.
            andThen (make zeroFormat w) (\<lambda>fmt.
            andThen (at (Format v) i) (\<lambda>oldF.
            andThen (assign (Format v) i (copy fmt oldF)) (\<lambda>format'.
              forRange (Width v) w (\<lambda>j v. clear v i j)
                (v\<lparr>Content := content', Format := format'\<rparr>)))))))) v
     = Inr (v\<lparr>Content := map (fit (nat w) 32) (Content v),
              Format := map (fit (nat w) zeroFormat) (Format v)\<rparr>)"
proof -
  have len: "length (Content v) = n" "length (Format v) = n" using r by (simp_all add: rect_def)
  have k: "nat w = m + (nat w - m)" "0 \<le> w" "m \<le> nat w" using w by auto
  show ?thesis
    unfolding len
  proof (rule rows_loop[OF len])
    fix i t assume i: "0 \<le> i" "i < int n"
      and t: "t = v\<lparr>Content := map (fit (nat w) 32) (take (nat i) (Content v)) @ drop (nat i) (Content v),
             Format := map (fit (nat w) zeroFormat) (take (nat i) (Format v)) @ drop (nat i) (Format v)\<rparr>"
    have ni: "nat i < n" using i by simp
    have lt: "length (Content t) = n" "length (Format t) = n" using len by (simp_all add: t)
    have wt: "Width t = int m" using wd by (simp add: t)
    have old: "Content t ! nat i = Content v ! nat i" "Format t ! nat i = Format v ! nat i"
      using ni len by (simp_all add: t nth_map_take_drop)
    have lo: "length (Content v ! nat i) = m" "length (Format v ! nat i) = m"
      using rect_rows[OF r ni] by simp_all
    let ?c = "Content v ! nat i @ replicate (nat w - m) 0"
    let ?f = "Format v ! nat i @ replicate (nat w - m) zeroFormat"
    let ?t2 = "t\<lparr>Content := (Content t)[nat i := ?c], Format := (Format t)[nat i := ?f]\<rparr>"
    have row0: "length (Content ?t2 ! 0) = nat w"
    proof (cases "nat i")
      case 0
      then show ?thesis using ni lt lo k by simp
    next
      case (Suc j)
      then have "Content ?t2 ! 0 = fit (nat w) 32 (Content v ! 0)"
        using ni len by (simp add: t nth_append)
      then show ?thesis by simp
    qed
    have inner: "forRange (int m) w (\<lambda>j v. clear v i j) ?t2 =
      Inr (?t2\<lparr>Content := (Content ?t2)[nat i := fill (nat (int m)) (nat w) 32 (Content ?t2 ! nat i)],
             Format := (Format ?t2)[nat i := fill (nat (int m)) (nat w) zeroFormat (Format ?t2 ! nat i)]\<rparr>)"
    proof (rule clear_row_loop)
      show "w \<le> int (length (Content ?t2 ! 0))" using row0 k by simp
      show "w \<le> int (length (Content ?t2 ! nat i))" using ni lt lo k by simp
      show "w \<le> int (length (Format ?t2 ! nat i))" using ni lt lo k by simp
    qed (use i ni lt w in simp_all)
    have fc: "fill m (nat w) 32 ?c = fit (nat w) 32 (Content v ! nat i)"
      using fill_padding[of "Content v ! nat i" "nat w - m" 32 0] lo k
      by (simp add: fit_longer)
    have ff: "fill m (nat w) zeroFormat ?f = fit (nat w) zeroFormat (Format v ! nat i)"
      using fill_padding[of "Format v ! nat i" "nat w - m" zeroFormat zeroFormat] lo k
      by (simp add: fit_longer)
    have "andThen (make 0 w) (\<lambda>row.
            andThen (at (Content t) i) (\<lambda>old.
            andThen (assign (Content t) i (copy row old)) (\<lambda>content'.
            andThen (make zeroFormat w) (\<lambda>fmt.
            andThen (at (Format t) i) (\<lambda>oldF.
            andThen (assign (Format t) i (copy fmt oldF)) (\<lambda>format'.
              forRange (Width t) w (\<lambda>j v. clear v i j)
                (t\<lparr>Content := content', Format := format'\<rparr>)))))))
        = forRange (int m) w (\<lambda>j v. clear v i j) ?t2"
      using i ni lt k lo by (simp add: make_nonneg at_in assign_in old copy_into_longer wt)
    also have "\<dots> = Inr (t\<lparr>Content := (Content t)[nat i := fit (nat w) 32 (Content v ! nat i)],
                         Format := (Format t)[nat i := fit (nat w) zeroFormat (Format v ! nat i)]\<rparr>)"
      unfolding inner using ni lt by (simp add: fc ff)
    finally show "andThen (make 0 w) (\<lambda>row.
            andThen (at (Content t) i) (\<lambda>old.
            andThen (assign (Content t) i (copy row old)) (\<lambda>content'.
            andThen (make zeroFormat w) (\<lambda>fmt.
            andThen (at (Format t) i) (\<lambda>oldF.
            andThen (assign (Format t) i (copy fmt oldF)) (\<lambda>format'.
              forRange (Width t) w (\<lambda>j v. clear v i j)
                (t\<lparr>Content := content', Format := format'\<rparr>)))))))
       = Inr (t\<lparr>Content := (Content t)[nat i := fit (nat w) 32 (Content v ! nat i)],
                         Format := (Format t)[nat i := fit (nat w) zeroFormat (Format v ! nat i)]\<rparr>)" .
  qed
qed

lemma narrow_rows:
  assumes r: "rect v n m" and w: "0 \<le> w" "w < int m"
  shows "forRange 0 (int (length (Content v))) (\<lambda>i v.
            andThen (at (Content v) i) (\<lambda>old.
            andThen (slice_to old w) (\<lambda>row.
            andThen (assign (Content v) i row) (\<lambda>content'.
            andThen (at (Format v) i) (\<lambda>oldF.
            andThen (slice_to oldF w) (\<lambda>rowF.
            andThen (assign (Format v) i rowF) (\<lambda>format'.
              Inr (v\<lparr>Content := content', Format := format'\<rparr>)))))))) v
     = Inr (v\<lparr>Content := map (fit (nat w) 32) (Content v),
              Format := map (fit (nat w) zeroFormat) (Format v)\<rparr>)"
proof -
  have len: "length (Content v) = n" "length (Format v) = n" using r by (simp_all add: rect_def)
  show ?thesis
    unfolding len
  proof (rule rows_loop[OF len])
    fix i t assume i: "0 \<le> i" "i < int n"
      and t: "t = v\<lparr>Content := map (fit (nat w) 32) (take (nat i) (Content v)) @ drop (nat i) (Content v),
             Format := map (fit (nat w) zeroFormat) (take (nat i) (Format v)) @ drop (nat i) (Format v)\<rparr>"
    have ni: "nat i < n" using i by simp
    have lt: "length (Content t) = n" "length (Format t) = n" using len by (simp_all add: t)
    have old: "Content t ! nat i = Content v ! nat i" "Format t ! nat i = Format v ! nat i"
      using ni len by (simp_all add: t nth_map_take_drop)
    have lo: "length (Content v ! nat i) = m" "length (Format v ! nat i) = m"
      using rect_rows[OF r ni] by simp_all
    have "nat w \<le> m" using w by simp
    then have f: "fit (nat w) 32 (Content v ! nat i) = take (nat w) (Content v ! nat i)"
      "fit (nat w) zeroFormat (Format v ! nat i) = take (nat w) (Format v ! nat i)"
      using lo by (simp_all add: fit_shorter)
    show "andThen (at (Content t) i) (\<lambda>old.
            andThen (slice_to old w) (\<lambda>row.
            andThen (assign (Content t) i row) (\<lambda>content'.
            andThen (at (Format t) i) (\<lambda>oldF.
            andThen (slice_to oldF w) (\<lambda>rowF.
            andThen (assign (Format t) i rowF) (\<lambda>format'.
              Inr (t\<lparr>Content := content', Format := format'\<rparr>)))))))
       = Inr (t\<lparr>Content := (Content t)[nat i := fit (nat w) 32 (Content v ! nat i)],
                         Format := (Format t)[nat i := fit (nat w) zeroFormat (Format v ! nat i)]\<rparr>)"
      using i ni lt lo w by (simp add: at_in assign_in slice_to_in old f)
  qed
qed


lemma forRange_cong_inv:
  assumes "J s"
    and "\<And>i t. lo \<le> i \<Longrightarrow> i < hi \<Longrightarrow> J t \<Longrightarrow> body i t = body' i t"
    and "\<And>i t t'. J t \<Longrightarrow> body' i t = Inr t' \<Longrightarrow> J t'"
  shows "forRange lo hi body s = forRange lo hi body' s"
  using assms
proof (induction "nat (hi - lo)" arbitrary: lo s)
  case 0
  then show ?case by (simp add: forRange_done)
next
  case (Suc k)
  then have lt: "lo < hi" by simp
  have b: "body lo s = body' lo s" using Suc.prems(2)[of lo s] lt Suc.prems(1) by simp
  show ?case
  proof (cases "body' lo s")
    case (Inl p)
    then show ?thesis using b lt by (simp add: forRange.simps[of lo])
  next
    case (Inr t)
    have "forRange (lo + 1) hi body t = forRange (lo + 1) hi body' t"
    proof (rule Suc.hyps(1))
      show "k = nat (hi - (lo + 1))" using Suc.hyps(2) by simp
      show "J t" using Suc.prems(3)[OF Suc.prems(1) Inr] .
      show "\<And>i u. lo + 1 \<le> i \<Longrightarrow> i < hi \<Longrightarrow> J u \<Longrightarrow> body i u = body' i u"
        using Suc.prems(2) by simp
      show "\<And>i u u'. J u \<Longrightarrow> body' i u = Inr u' \<Longrightarrow> J u'"
        using Suc.prems(3) by blast
    qed
    then show ?thesis using b lt Inr by (simp add: forRange.simps[of lo])
  qed
qed

lemma clear_frame:
  assumes "clear v y x = Inr v'"
  shows "v' = v\<lparr>Content := Content v', Format := Format v'\<rparr>"
  using assms by (auto simp: clear_def andThen_eq_Inr split: if_splits)

lemma snoc_fill:
  "length xs = k \<Longrightarrow>
   (xs @ [replicate m a])[k := fill 0 m z ((xs @ [replicate m a]) ! k)] = xs @ [replicate m z]"
  by (auto simp: fill_replicate list_update_append nth_append)

lemma append_rows:
  assumes r: "rect v n m" and n: "0 < n" and wd: "Width v = int m" and k: "0 \<le> k"
    and ht: "Height v = int n"
  shows "forRange 0 k (\<lambda>row v.
               andThen (make 0 (Width v)) (\<lambda>r.
               andThen (make zeroFormat (Width v)) (\<lambda>f.
                 forRange 0 (Width v) (\<lambda>col v. clear v (Height v + row) col)
                   (v\<lparr>Content := Content v @ [r], Format := Format v @ [f]\<rparr>)))) v
     = Inr (v\<lparr>Content := Content v @ replicate (nat k) (replicate m 32),
              Format := Format v @ replicate (nat k) (replicate m zeroFormat)\<rparr>)"
    (is "forRange 0 k ?body v = _")
proof -
  have len: "length (Content v) = n" "length (Format v) = n" using r by (simp_all add: rect_def)
  have row0: "length (Content v ! 0) = m" using rect_rows[OF r n] by simp
  define I where "I = (\<lambda>i t. t =
     v\<lparr>Content := Content v @ replicate (nat i) (replicate m 32),
       Format := Format v @ replicate (nat i) (replicate m zeroFormat)\<rparr>)"
  have "\<exists>s'. forRange 0 k ?body v = Inr s' \<and> I k s'"
  proof (rule forRange_rule)
    show "0 \<le> k" by (rule k)
    show "I 0 v" by (simp add: I_def)
  next
    fix i t assume i: "0 \<le> i" "i < k" and "I i t"
    then have t: "t = v\<lparr>Content := Content v @ replicate (nat i) (replicate m 32),
       Format := Format v @ replicate (nat i) (replicate m zeroFormat)\<rparr>"
      by (simp add: I_def)
    have ni: "nat (i + 1) = Suc (nat i)" "nat (int n + i) = n + nat i" using i by auto
    let ?t1 = "t\<lparr>Content := Content t @ [replicate m 0],
                 Format := Format t @ [replicate m zeroFormat]\<rparr>"
    have l1: "length (Content t) = n + nat i" "length (Format t) = n + nat i"
      using len by (simp_all add: t)
    have inner: "forRange 0 (int m) (\<lambda>col v. clear v (int n + i) col) ?t1 =
      Inr (?t1\<lparr>Content := (Content ?t1)[nat (int n + i) :=
                     fill (nat 0) (nat (int m)) 32 (Content ?t1 ! nat (int n + i))],
             Format := (Format ?t1)[nat (int n + i) :=
                     fill (nat 0) (nat (int m)) zeroFormat (Format ?t1 ! nat (int n + i))]\<rparr>)"
    proof (rule clear_row_loop)
      show "int m \<le> int (length (Content ?t1 ! 0))"
        using n len row0 by (simp add: t nth_append)
      show "int m \<le> int (length (Content ?t1 ! nat (int n + i)))"
        unfolding ni using l1 by (simp add: nth_append)
      show "int m \<le> int (length (Format ?t1 ! nat (int n + i)))"
        unfolding ni using l1 by (simp add: nth_append)
    qed (use i l1 in simp_all)
    have "forRange 0 (int m) (\<lambda>col v. clear v (Height v + i) col) ?t1
        = forRange 0 (int m) (\<lambda>col v. clear v (int n + i) col) ?t1"
    proof (rule forRange_cong_inv[where J = "\<lambda>u. Height u = int n"])
      show "Height ?t1 = int n" using ht by (simp add: t)
      show "\<And>j u u'. Height u = int n \<Longrightarrow> clear u (int n + i) j = Inr u' \<Longrightarrow> Height u' = int n"
        using clear_frame by (metis (no_types, lifting) select_convs(1) surjective update_convs(3,4))
    qed simp
    then have "?body i t = forRange 0 (int m) (\<lambda>col v. clear v (int n + i) col) ?t1"
      using wd ht by (simp add: t make_nonneg)
    also have "\<dots> = Inr (t\<lparr>Content := Content t @ [replicate m 32],
                           Format := Format t @ [replicate m zeroFormat]\<rparr>)"
      unfolding inner ni using snoc_fill[OF l1(1)] snoc_fill[OF l1(2)] by simp
    also have "\<dots> = Inr (v\<lparr>Content := Content v @ replicate (nat (i + 1)) (replicate m 32),
       Format := Format v @ replicate (nat (i + 1)) (replicate m zeroFormat)\<rparr>)"
      unfolding ni by (simp add: t replicate_append_same)
    finally show "\<exists>t'. ?body i t = Inr t' \<and> I (i + 1) t'" by (simp add: I_def)
  qed
  then show ?thesis by (auto simp: I_def)
qed


lemma resize_height_stage:
  assumes r: "rect v n m" and n: "0 < n" and ht: "Height v = int n" and wd: "Width v = int m"
    and h: "0 \<le> h"
  shows "(if h > Height v then
          andThen
            (forRange 0 (h - Height v) (\<lambda>row v.
               andThen (make 0 (Width v)) (\<lambda>r.
               andThen (make zeroFormat (Width v)) (\<lambda>f.
                 forRange 0 (Width v) (\<lambda>col v. clear v (Height v + row) col)
                   (v\<lparr>Content := Content v @ [r], Format := Format v @ [f]\<rparr>)))) v)
            (\<lambda>v. Inr (v\<lparr>Height := h\<rparr>))
        else if h < Height v then
          andThen (slice_to (Content v) h) (\<lambda>content'.
          andThen (slice_to (Format v) h) (\<lambda>format'.
            Inr (v\<lparr>Content := content', Format := format', Height := h\<rparr>)))
        else Inr v)
     = Inr (v\<lparr>Content := fit (nat h) (replicate m 32) (Content v),
              Format := fit (nat h) (replicate m zeroFormat) (Format v),
              Height := h\<rparr>)"
proof -
  have len: "length (Content v) = n" "length (Format v) = n" using r by (simp_all add: rect_def)
  consider "h > Height v" | "h < Height v" | "h = Height v" by linarith
  then show ?thesis
  proof cases
    case 1
    then have k: "0 \<le> h - Height v" "nat h - n = nat (h - Height v)" "n \<le> nat h"
      using ht by auto
    show ?thesis
      using 1 k(2,3) len by (simp add: append_rows[OF r n wd k(1) ht] fit_longer)
  next
    case 2
    then have "nat h \<le> n" using ht by simp
    then show ?thesis using 2 h ht len by (simp add: slice_to_in fit_shorter)
  next
    case 3
    then have "nat h = n" using ht by simp
    then show ?thesis using 3 len fit_same[of "Content v"] fit_same[of "Format v"] by simp
  qed
qed

lemma resize_width_stage:
  assumes r: "rect v n m" and wd: "Width v = int m" and w: "0 \<le> w"
  shows "(if w > Width v then
               andThen
                 (forRange 0 (int (length (Content v))) (\<lambda>i v.
                    andThen (make 0 w) (\<lambda>row.
                    andThen (at (Content v) i) (\<lambda>old.
                    andThen (assign (Content v) i (copy row old)) (\<lambda>content'.
                    andThen (make zeroFormat w) (\<lambda>fmt.
                    andThen (at (Format v) i) (\<lambda>oldF.
                    andThen (assign (Format v) i (copy fmt oldF)) (\<lambda>format'.
                      forRange (Width v) w (\<lambda>j v. clear v i j)
                        (v\<lparr>Content := content', Format := format'\<rparr>)))))))) v)
                 (\<lambda>v. Inr (v\<lparr>Width := w\<rparr>))
             else if w < Width v then
               andThen
                 (forRange 0 (int (length (Content v))) (\<lambda>i v.
                    andThen (at (Content v) i) (\<lambda>old.
                    andThen (slice_to old w) (\<lambda>row.
                    andThen (assign (Content v) i row) (\<lambda>content'.
                    andThen (at (Format v) i) (\<lambda>oldF.
                    andThen (slice_to oldF w) (\<lambda>rowF.
                    andThen (assign (Format v) i rowF) (\<lambda>format'.
                      Inr (v\<lparr>Content := content', Format := format'\<rparr>)))))))) v)
                 (\<lambda>v. Inr (v\<lparr>Width := w\<rparr>))
             else Inr v)
     = Inr (v\<lparr>Content := map (fit (nat w) 32) (Content v),
              Format := map (fit (nat w) zeroFormat) (Format v),
              Width := w\<rparr>)"
proof -
  consider "w > Width v" | "w < Width v" | "w = Width v" by linarith
  then show ?thesis
  proof cases
    case 1
    then have "int m < w" using wd by simp
    from widen_rows[OF r wd this] 1 show ?thesis by simp
  next
    case 2
    then have "w < int m" using wd by simp
    from narrow_rows[OF r w this] 2 show ?thesis by simp
  next
    case 3
    then have "nat w = m" using wd by simp
    have "map (fit (nat w) 32) (Content v) = Content v"
      using r \<open>nat w = m\<close> by (intro map_idI) (auto simp: rect_def list_all_iff fit_def)
    moreover have "map (fit (nat w) zeroFormat) (Format v) = Format v"
      using r \<open>nat w = m\<close> by (intro map_idI) (auto simp: rect_def list_all_iff fit_def)
    ultimately show ?thesis using 3 by simp
  qed
qed

lemma rect_fit:
  assumes "rect v n m"
  shows "rect (v\<lparr>Content := fit k (replicate m a) (Content v),
              Format := fit k (replicate m b) (Format v), Height := h\<rparr>) k m"
  using assms by (auto simp: rect_def fit_def list_all_iff dest: in_set_takeD)

lemma resize_closed_form:
  assumes "wf v" "0 \<le> h" "0 \<le> w"
  shows "resize v h w = Inr (resized v h w)"
proof -
  define n m where "n = nat (Height v)" and "m = nat (Width v)"
  have r: "rect v n m" and n: "0 < n" and ht: "Height v = int n" and wd: "Width v = int m"
    using assms(1) by (simp_all add: wf_def n_def m_def)
  let ?v1 = "v\<lparr>Content := fit (nat h) (replicate m 32) (Content v),
              Format := fit (nat h) (replicate m zeroFormat) (Format v), Height := h\<rparr>"
  have r1: "rect ?v1 (nat h) m" by (rule rect_fit[OF r])
  have r2: "rect (?v1\<lparr>maxY := h - 1\<rparr>) (nat h) m" using r1 by (simp add: rect_def)
  have w1: "Width ?v1 = int m" and w2: "Width (?v1\<lparr>maxY := h - 1\<rparr>) = int m"
    using wd by simp_all
  have e: "maxY ?v1 = maxY v" by simp
  show ?thesis
    apply (simp only: resize_def resize_height_stage[OF r n ht wd assms(2)] andThen_Inr Let_def e)
    apply (cases "h < maxY v")
     apply (simp only: if_True resize_width_stage[OF r2 w2 assms(3)] andThen_Inr)
     apply (simp add: resized_def m_def)
    apply (simp only: if_False resize_width_stage[OF r1 w1 assms(3)] andThen_Inr)
    apply (simp add: resized_def m_def)
    done
qed


section \<open>Shrinking the height (C3)\<close>

text \<open>
  C3. The claim is that \<open>resize(h, w)\<close> with \<open>1 \<le> h < Height\<close> keeps exactly the
  first \<open>h\<close> rows and, if \<open>maxY \<ge> h\<close> before the call, leaves \<open>maxY = h - 1\<close>.
  The rows are cut as claimed, but \<open>resize\<close> tests \<open>h < maxY\<close>: a terminal of
  height 3 whose three rows have been written has \<open>maxY = 2\<close>, and after
  \<open>resize(2, 1)\<close> it has two rows and still \<open>maxY = 2\<close>, not 1.
\<close>

theorem resize_keeps_maxY_at_h:
  "map_sum id (\<lambda>v. (Height v, maxY v))
     (andThen (NewVT100 3 1) (\<lambda>v. andThen (put v 97) (\<lambda>v. andThen (put v 98) (\<lambda>v. put v 99))))
     = Inr (3, 2)
   \<and> map_sum id (\<lambda>v. (Height v, Content v, length (Format v), maxY v))
     (andThen (NewVT100 3 1) (\<lambda>v. andThen (put v 97) (\<lambda>v. andThen (put v 98) (\<lambda>v.
        andThen (put v 99) (\<lambda>v. resize v 2 1)))))
     = Inr (2, [[97], [98]], 2, 2)"
  by code_simp

section \<open>put keeps the grid well-formed\<close>

lemma wf_resized: "1 \<le> h \<Longrightarrow> 1 \<le> w \<Longrightarrow> wf (resized v h w)"
  by (auto simp: wf_def rect_def resized_def list_all_iff)

lemma resize_wf:
  assumes "wf v" "1 \<le> h" "1 \<le> w" "resize v h w = Inr v'"
  shows "wf v'" "Width v' = w" "Height v' = h" "AutoResizeX v' = AutoResizeX v"
    "AutoResizeY v' = AutoResizeY v" "savedCursor v' = savedCursor v"
    "Y (Cursor v') = Y (Cursor v)" "F (Cursor v') = F (Cursor v)"
    "X (Cursor v') = (if X (Cursor v) \<ge> w then w - 1 else X (Cursor v))"
    "unparsed v' = unparsed v"
proof -
  have "v' = resized v h w" using resize_closed_form[of v h w] assms by simp
  then show "wf v'" "Width v' = w" "Height v' = h" "AutoResizeX v' = AutoResizeX v"
    "AutoResizeY v' = AutoResizeY v" "savedCursor v' = savedCursor v"
    "Y (Cursor v') = Y (Cursor v)" "F (Cursor v') = F (Cursor v)"
    "X (Cursor v') = (if X (Cursor v) \<ge> w then w - 1 else X (Cursor v))"
    "unparsed v' = unparsed v"
    using assms(2,3) by (simp_all add: wf_resized) (simp_all add: resized_def)
qed

lemma copy_tl: "xs \<noteq> [] \<Longrightarrow> copy xs (tl xs) = tl xs @ [last xs]"
  by (cases xs rule: rev_cases) (auto simp: copy_def)

lemma scrollOne_wf:
  assumes "wf v"
  shows "scrollOne v = Inr (v\<lparr>Content := tl (Content v) @ [replicate (nat (Width v)) 32],
            Format := tl (Format v) @ [replicate (nat (Width v)) zeroFormat],
            Cursor := (Cursor v)\<lparr>Y := Height v - 1\<rparr>\<rparr>)"
proof -
  define n m where "n = nat (Height v)" and "m = nat (Width v)"
  have r: "rect v n m" and n: "0 < n" and ht: "Height v = int n"
    using assms by (simp_all add: wf_def n_def m_def)
  have len: "length (Content v) = n" "length (Format v) = n" using r by (simp_all add: rect_def)
  have ne: "Content v \<noteq> []" "Format v \<noteq> []" using len n by auto
  have row0: "length (Content v ! 0) = m" "length (Format v ! 0) = m"
    using rect_rows[OF r n] by simp_all
  have idx: "nat (Height v - 1) = length (tl (Content v))" "nat (Height v - 1) = length (tl (Format v))"
    using len ht by simp_all
  have bnd: "0 \<le> Height v - 1" "Height v - 1 < int (length (tl (Content v) @ [last (Content v)]))"
    "Height v - 1 < int (length (tl (Format v) @ [last (Format v)]))"
    using len ht n by simp_all
  have a0: "at (Content v) 0 = Inr (Content v ! 0)" "at (Format v) 0 = Inr (Format v ! 0)"
    using len n by (simp_all add: at_def)
  have u1: "assign (copy (Content v) (tl (Content v))) (Height v - 1) (replicate m 32)
      = Inr (tl (Content v) @ [replicate m 32])"
    unfolding copy_tl[OF ne(1)] assign_in[OF bnd(1,2)] idx(1) append_update_last ..
  have u2: "assign (copy (Format v) (tl (Format v))) (Height v - 1) (replicate m zeroFormat)
      = Inr (tl (Format v) @ [replicate m zeroFormat])"
    unfolding copy_tl[OF ne(2)] assign_in[OF bnd(1,3)] idx(2) append_update_last ..
  show ?thesis
    unfolding scrollOne_def a0 andThen_Inr row0 u1 using u2 row0(2)
    by (simp add: m_def)
qed

lemma scrollOne_preserves:
  assumes "wf v" "scrollOne v = Inr v'"
  shows "wf v'" "Width v' = Width v" "Height v' = Height v" "AutoResizeX v' = AutoResizeX v"
    "AutoResizeY v' = AutoResizeY v" "savedCursor v' = savedCursor v"
    "X (Cursor v') = X (Cursor v)" "F (Cursor v') = F (Cursor v)"
    "Y (Cursor v') = Height v - 1" "unparsed v' = unparsed v"
proof -
  have v': "v' = v\<lparr>Content := tl (Content v) @ [replicate (nat (Width v)) 32],
            Format := tl (Format v) @ [replicate (nat (Width v)) zeroFormat],
            Cursor := (Cursor v)\<lparr>Y := Height v - 1\<rparr>\<rparr>"
    using scrollOne_wf[OF assms(1)] assms(2) by simp
  have "wf v'"
    using assms(1) unfolding v'
    by (auto simp: wf_def rect_def list_all_iff dest: list.set_sel(2)[rotated])
  then show "wf v'" "Width v' = Width v" "Height v' = Height v" "AutoResizeX v' = AutoResizeX v"
    "AutoResizeY v' = AutoResizeY v" "savedCursor v' = savedCursor v"
    "X (Cursor v') = X (Cursor v)" "F (Cursor v') = F (Cursor v)"
    "Y (Cursor v') = Height v - 1" "unparsed v' = unparsed v"
    by (simp_all add: v')
qed


lemma assign2_eq_Inr:
  "assign2 g y x a = Inr g' \<longleftrightarrow>
     0 \<le> y \<and> y < int (length g) \<and> 0 \<le> x \<and> x < int (length (g ! nat y))
     \<and> g' = g[nat y := (g ! nat y)[nat x := a]]"
  by (auto simp: assign2_def at_def assign_def)

lemma scrollOrResizeYIfNeeded_preserves:
  assumes "wf v" "scrollOrResizeYIfNeeded v = Inr v'"
  shows "wf v'" "Width v' = Width v" "AutoResizeX v' = AutoResizeX v"
    "AutoResizeY v' = AutoResizeY v" "savedCursor v' = savedCursor v" "unparsed v' = unparsed v"
proof -
  have pos: "1 \<le> Height v" "1 \<le> Width v" using assms(1) by (simp_all add: wf_def)
  consider "Y (Cursor v) < Height v" | "Y (Cursor v) \<ge> Height v" "AutoResizeY v"
    | "Y (Cursor v) \<ge> Height v" "\<not> AutoResizeY v" by linarith
  then have "wf v' \<and> Width v' = Width v \<and> AutoResizeX v' = AutoResizeX v
    \<and> AutoResizeY v' = AutoResizeY v \<and> savedCursor v' = savedCursor v \<and> unparsed v' = unparsed v"
  proof cases
    case 1
    then have "v' = v" using assms(2) by (simp add: scrollOrResizeYIfNeeded_def)
    then show ?thesis using assms(1) by simp
  next
    case 2
    then have rs: "resize v (Y (Cursor v) + 1) (Width v) = Inr v'"
      using assms(2) by (simp add: scrollOrResizeYIfNeeded_def)
    have "1 \<le> Y (Cursor v) + 1" using 2 pos by simp
    from resize_wf[OF assms(1) this pos(2) rs] show ?thesis by simp
  next
    case 3
    then have "scrollOne v = Inr v'"
      using assms(2) by (simp add: scrollOrResizeYIfNeeded_def)
    from scrollOne_preserves[OF assms(1) this] show ?thesis by simp
  qed
  then show "wf v'" "Width v' = Width v" "AutoResizeX v' = AutoResizeX v"
    "AutoResizeY v' = AutoResizeY v" "savedCursor v' = savedCursor v" "unparsed v' = unparsed v"
    by simp_all
qed

lemma resizeXIfNeeded_preserves:
  assumes "wf v" "resizeXIfNeeded v = Inr v'"
  shows "wf v'" "Width v \<le> Width v'" "AutoResizeX v' = AutoResizeX v"
    "AutoResizeY v' = AutoResizeY v" "savedCursor v' = savedCursor v" "unparsed v' = unparsed v"
proof -
  have pos: "1 \<le> Height v" "1 \<le> Width v" using assms(1) by (simp_all add: wf_def)
  have "wf v' \<and> Width v \<le> Width v' \<and> AutoResizeX v' = AutoResizeX v
    \<and> AutoResizeY v' = AutoResizeY v \<and> savedCursor v' = savedCursor v \<and> unparsed v' = unparsed v"
  proof (cases "AutoResizeX v \<and> X (Cursor v) + 1 \<ge> Width v")
    case True
    then have rs: "resize v (Height v) (X (Cursor v) + 1) = Inr v'"
      using assms(2) by (simp add: resizeXIfNeeded_def)
    have "1 \<le> X (Cursor v) + 1" using True pos by simp
    from resize_wf[OF assms(1) pos(1) this rs] True show ?thesis by simp
  next
    case False
    then have "v' = v" using assms(2) by (auto simp: resizeXIfNeeded_def)
    then show ?thesis using assms(1) by simp
  qed
  then show "wf v'" "Width v \<le> Width v'" "AutoResizeX v' = AutoResizeX v"
    "AutoResizeY v' = AutoResizeY v" "savedCursor v' = savedCursor v" "unparsed v' = unparsed v"
    by simp_all
qed

lemma list_all_cell_update:
  assumes "list_all (\<lambda>row. length row = m) g"
  shows "list_all (\<lambda>row. length row = m) (g[i := (g ! i)[j := c]])"
proof (cases "i < length g")
  case True
  then show ?thesis using assms by (auto simp: list_all_length nth_list_update)
next
  case False
  then have "g[i := (g ! i)[j := c]] = g" by (simp add: list_update_beyond)
  then show ?thesis using assms by simp
qed

lemma wf_cell_update:
  assumes "wf v"
  shows "wf (v\<lparr>Content := (Content v)[i := (Content v ! i)[j := a]],
              Format := (Format v)[i := (Format v ! i)[j := b]]\<rparr>)"
  using assms by (simp add: wf_def rect_def list_all_cell_update)

lemma put_preserves:
  assumes "wf v" "put v r = Inr v'"
  shows "wf v'" "Width v \<le> Width v'" "AutoResizeX v' = AutoResizeX v"
    "AutoResizeY v' = AutoResizeY v" "savedCursor v' = savedCursor v" "unparsed v' = unparsed v"
    "0 \<le> X (Cursor v')"
    "if AutoResizeX v then X (Cursor v') \<le> Width v' else X (Cursor v') < Width v'"
proof -
  define v0 where "v0 = (if Y (Cursor v) > maxY v then v\<lparr>maxY := Y (Cursor v)\<rparr> else v)"
  have wf0: "wf v0" using assms(1) by (simp add: v0_def wf_def rect_def)
  have same0: "Width v0 = Width v" "AutoResizeX v0 = AutoResizeX v" "AutoResizeY v0 = AutoResizeY v"
    "savedCursor v0 = savedCursor v" "unparsed v0 = unparsed v"
    by (simp_all add: v0_def)
  from assms(2) obtain v1 v2 c' f' where
    s1: "scrollOrResizeYIfNeeded v0 = Inr v1" and s2: "resizeXIfNeeded v1 = Inr v2"
    and c: "assign2 (Content v2) (Y (Cursor v2)) (X (Cursor v2)) r = Inr c'"
    and f: "assign2 (Format v2) (Y (Cursor v2)) (X (Cursor v2)) (F (Cursor v2)) = Inr f'"
    and v': "v' = advance (v2\<lparr>Content := c', Format := f'\<rparr>)"
    unfolding put_def Let_def v0_def[symmetric] andThen_eq_Inr by auto
  note p1 = scrollOrResizeYIfNeeded_preserves[OF wf0 s1]
  note p2 = resizeXIfNeeded_preserves[OF p1(1) s2]
  have r2: "rect v2 (nat (Height v2)) (nat (Width v2))" and pos2: "1 \<le> Width v2"
    using p2(1) by (simp_all add: wf_def)
  from c have yb: "0 \<le> Y (Cursor v2)" "Y (Cursor v2) < int (length (Content v2))"
    and xb: "0 \<le> X (Cursor v2)" "X (Cursor v2) < int (length (Content v2 ! nat (Y (Cursor v2))))"
    and c': "c' = (Content v2)[nat (Y (Cursor v2)) :=
                (Content v2 ! nat (Y (Cursor v2)))[nat (X (Cursor v2)) := r]]"
    by (simp_all add: assign2_eq_Inr)
  from f have f': "f' = (Format v2)[nat (Y (Cursor v2)) :=
                (Format v2 ! nat (Y (Cursor v2)))[nat (X (Cursor v2)) := F (Cursor v2)]]"
    by (simp add: assign2_eq_Inr)
  have "nat (Y (Cursor v2)) < nat (Height v2)" using yb r2 by (auto simp: rect_def split: if_splits)
  from rect_rows[OF r2 this] xb have xw: "X (Cursor v2) < Width v2"
    by (simp split: if_splits)
  let ?v3 = "v2\<lparr>Content := c', Format := f'\<rparr>"
  have wf3: "wf ?v3" unfolding c' f' by (rule wf_cell_update[OF p2(1)])
  show "wf v'" using wf3 by (simp add: v' advance_def Let_def wf_def rect_def)
  show "Width v \<le> Width v'" using p1(2) p2(2) same0 by (simp add: v' advance_def Let_def)
  show "AutoResizeX v' = AutoResizeX v" using p1(3) p2(3) same0 by (simp add: v' advance_def Let_def)
  show "AutoResizeY v' = AutoResizeY v" using p1(4) p2(4) same0 by (simp add: v' advance_def Let_def)
  show "savedCursor v' = savedCursor v" using p1(5) p2(5) same0 by (simp add: v' advance_def Let_def)
  show "unparsed v' = unparsed v" using p1(6) p2(6) same0 by (simp add: v' advance_def Let_def)
  show "0 \<le> X (Cursor v')" using xb by (simp add: v' advance_def Let_def)
  have "AutoResizeX v2 = AutoResizeX v" using p1(3) p2(3) same0 by simp
  then show "if AutoResizeX v then X (Cursor v') \<le> Width v' else X (Cursor v') < Width v'"
    using xb xw pos2 by (simp add: v' advance_def Let_def)
qed

section \<open>The commands keep the grid well-formed\<close>

lemma forRange_preserves:
  assumes "\<And>i t t'. J t \<Longrightarrow> body i t = Inr t' \<Longrightarrow> J t'"
    and "J s" and "forRange lo hi body s = Inr s'"
  shows "J s'"
  using assms(2,3)
proof (induction "nat (hi - lo)" arbitrary: lo s)
  case 0
  then show ?case by (simp add: forRange_done)
next
  case (Suc k)
  then have lt: "lo < hi" by simp
  from Suc.prems(2) lt obtain t where t: "body lo s = Inr t" "forRange (lo + 1) hi body t = Inr s'"
    by (subst (asm) forRange.simps) (auto split: sum.splits)
  show ?case
  proof (rule Suc.hyps(1))
    show "k = nat (hi - (lo + 1))" using Suc.hyps(2) by simp
    show "J t" using assms(1)[OF Suc.prems(1) t(1)] .
    show "forRange (lo + 1) hi body t = Inr s'" by (rule t(2))
  qed
qed

text \<open>Same grid shape, and nothing but runes and formats changed.\<close>

lemma same_but_cells:
  assumes "v'\<lparr>Content := Content v, Format := Format v\<rparr> = v"
  shows "Height v' = Height v" "Width v' = Width v" "Cursor v' = Cursor v"
    "AutoResizeX v' = AutoResizeX v" "AutoResizeY v' = AutoResizeY v"
    "savedCursor v' = savedCursor v" "unparsed v' = unparsed v" "maxY v' = maxY v"
  using assms by (cases v, cases v', simp)+

lemma clear_keeps:
  assumes "wf v \<and> v\<lparr>Content := Content u, Format := Format u\<rparr> = u" "clear v y x = Inr v'"
  shows "wf v' \<and> v'\<lparr>Content := Content u, Format := Format u\<rparr> = u"
proof -
  have f: "v' = v\<lparr>Content := Content v', Format := Format v'\<rparr>" by (rule clear_frame[OF assms(2)])
  have r: "rect v (nat (Height v)) (nat (Width v))" and pos: "0 < nat (Height v)"
    using assms(1) by (simp_all add: wf_def)
  have "v' = v \<or> v' = blanked (\<lambda>i j. i = y \<and> j = x) v"
    using assms(2) unfolding clear_rect[OF r pos, of y x] by (simp split: if_splits)
  then have "wf v'" using assms(1) by auto
  moreover have "v'\<lparr>Content := Content u, Format := Format u\<rparr> = u"
    by (subst f) (simp add: assms(1))
  ultimately show ?thesis by simp
qed

lemma eraseRegion_loops:
  "eraseRegion v y1 x1 y2 x2 =
     forRange (min y1 y2) (max y1 y2 + 1)
       (\<lambda>y v. forRange (min x1 x2) (max x1 x2 + 1) (\<lambda>x v. clear v y x) v) v"
  by (auto simp: eraseRegion_def min_def max_def)

lemma eraseRegion_keeps:
  assumes "wf v" "eraseRegion v y1 x1 y2 x2 = Inr v'"
  shows "wf v' \<and> v'\<lparr>Content := Content v, Format := Format v\<rparr> = v"
proof -
  let ?J = "\<lambda>t. wf t \<and> t\<lparr>Content := Content v, Format := Format v\<rparr> = v"
  have inner: "?J t'" if "?J t" "forRange a b (\<lambda>x v. clear v y x) t = Inr t'" for a b y t t'
    by (rule forRange_preserves[where J = ?J and body = "\<lambda>x v. clear v y x", OF _ that])
       (rule clear_keeps)
  have outer: "?J t'"
    if "?J t" "forRange a b (\<lambda>y v. forRange c d (\<lambda>x v. clear v y x) v) t = Inr t'"
    for a b c d t t'
    by (rule forRange_preserves[where J = ?J
          and body = "\<lambda>y v. forRange c d (\<lambda>x v. clear v y x) v", OF _ that])
       (rule inner)
  have "?J v" using assms(1) by simp
  then show ?thesis
    by (rule outer) (rule assms(2)[unfolded eraseRegion_loops])
qed

lemma eraseLines_keeps:
  assumes "wf v" "eraseLines v d = Inr v'"
  shows "wf v' \<and> v'\<lparr>Content := Content v, Format := Format v\<rparr> = v"
proof -
  consider "d = eraseBack" | "d \<noteq> eraseBack" "d = eraseForward"
    | "d \<noteq> eraseBack" "d \<noteq> eraseForward" "d = eraseAll"
    | "d \<noteq> eraseBack" "d \<noteq> eraseForward" "d \<noteq> eraseAll" by blast
  then show ?thesis
  proof cases
    case 1
    then have "eraseRegion v 0 0 (Y (Cursor v)) (Width v - 1) = Inr v'"
      using assms(2) by (simp add: eraseLines_def Let_def)
    then show ?thesis by (rule eraseRegion_keeps[OF assms(1)])
  next
    case 2
    then have "eraseRegion v (Y (Cursor v)) 0 (Height v - 1) (Width v - 1) = Inr v'"
      using assms(2) by (simp add: eraseLines_def Let_def)
    then show ?thesis by (rule eraseRegion_keeps[OF assms(1)])
  next
    case 3
    then have "eraseRegion v 0 0 (Height v - 1) (Width v - 1) = Inr v'"
      using assms(2) by (simp add: eraseLines_def Let_def)
    then show ?thesis by (rule eraseRegion_keeps[OF assms(1)])
  next
    case 4
    then have "v' = v" using assms(2) by (simp add: eraseLines_def Let_def)
    then show ?thesis using assms(1) by simp
  qed
qed

lemma eraseColumns_keeps:
  assumes "wf v" "eraseColumns v d = Inr v'"
  shows "wf v' \<and> v'\<lparr>Content := Content v, Format := Format v\<rparr> = v"
proof -
  consider "d = eraseBack" | "d \<noteq> eraseBack" "d = eraseForward"
    | "d \<noteq> eraseBack" "d \<noteq> eraseForward" "d = eraseAll"
    | "d \<noteq> eraseBack" "d \<noteq> eraseForward" "d \<noteq> eraseAll" by blast
  then show ?thesis
  proof cases
    case 1
    then have "eraseRegion v (Y (Cursor v)) 0 (Y (Cursor v)) (X (Cursor v)) = Inr v'"
      using assms(2) by (simp add: eraseColumns_def Let_def)
    then show ?thesis by (rule eraseRegion_keeps[OF assms(1)])
  next
    case 2
    then have "eraseRegion v (Y (Cursor v)) (X (Cursor v)) (Y (Cursor v)) (Width v - 1) = Inr v'"
      using assms(2) by (simp add: eraseColumns_def Let_def)
    then show ?thesis by (rule eraseRegion_keeps[OF assms(1)])
  next
    case 3
    then have "eraseRegion v (Y (Cursor v)) 0 (Y (Cursor v)) (Width v - 1) = Inr v'"
      using assms(2) by (simp add: eraseColumns_def Let_def)
    then show ?thesis by (rule eraseRegion_keeps[OF assms(1)])
  next
    case 4
    then have "v' = v" using assms(2) by (simp add: eraseColumns_def Let_def)
    then show ?thesis using assms(1) by simp
  qed
qed

lemma wf_cursor_update [simp]:
  "wf (v\<lparr>Cursor := c\<rparr>) = wf v" "wf (v\<lparr>savedCursor := c\<rparr>) = wf v"
  "wf (v\<lparr>unparsed := b\<rparr>) = wf v" "wf (v\<lparr>maxY := y\<rparr>) = wf v"
  by (simp_all add: wf_def rect_def)

lemma control_wf [simp]: "wf (control b v) = wf v"
  by (simp add: control_def backspace_def horizontalTab_def linefeed_def carriageReturn_def Let_def)

lemma updateAttributes_wf:
  "updateAttributes v ps = (e, v') \<Longrightarrow> wf v' = wf v"
  by (auto simp: updateAttributes_def Let_def split: prod.splits)

lemma escape_wf:
  assumes "wf v" "escape final ps v = Inr (e, v')"
  shows "wf v'"
proof -
  consider "final = CHR ''J''" | "final = CHR ''K''" | "final = CHR ''m''"
    | "final = CHR ''A'' \<or> final = CHR ''B'' \<or> final = CHR ''C'' \<or> final = CHR ''D''
       \<or> final = CHR ''H'' \<or> final = CHR ''f'' \<or> final = CHR ''s'' \<or> final = CHR ''u''"
    | "final \<noteq> CHR ''J''" "final \<noteq> CHR ''K''" "final \<noteq> CHR ''m''"
      "final \<noteq> CHR ''A''" "final \<noteq> CHR ''B''" "final \<noteq> CHR ''C''" "final \<noteq> CHR ''D''"
      "final \<noteq> CHR ''H''" "final \<noteq> CHR ''f''" "final \<noteq> CHR ''s''" "final \<noteq> CHR ''u''"
    by blast
  then show ?thesis
  proof cases
    case 1
    then obtain u where "eraseLines v (param ps 0 0) = Inr u" "v' = u"
      using assms(2) by (auto simp: escape_def Let_def andThen_eq_Inr)
    then show ?thesis using eraseLines_keeps[OF assms(1)] by blast
  next
    case 2
    then obtain u where "eraseColumns v (param ps 0 0) = Inr u" "v' = u"
      using assms(2) by (auto simp: escape_def Let_def andThen_eq_Inr)
    then show ?thesis using eraseColumns_keeps[OF assms(1)] by blast
  next
    case 3
    then have "updateAttributes v ps = (e, v')"
      using assms(2) by (auto simp: escape_def Let_def)
    then show ?thesis using updateAttributes_wf assms(1) by blast
  next
    case 4
    then show ?thesis
      using assms by (auto simp: escape_def Let_def home_def save_def unsave_def)
  next
    case 5
    then have "v' = v" using assms(2) by (simp add: escape_def Let_def)
    then show ?thesis using assms(1) by simp
  qed
qed

lemma display_wf:
  assumes "wf v" "display c v = Inr (e, v')"
  shows "wf v'"
proof (cases c)
  case (PutRune r)
  then obtain u where "put v r = Inr u" "v' = u"
    using assms(2) by (auto simp: andThen_eq_Inr)
  then show ?thesis using put_preserves(1)[OF assms(1)] by blast
next
  case (Control b)
  then show ?thesis using assms by auto
next
  case (Escape final ps priv)
  then show ?thesis using assms escape_wf by auto
qed

section \<open>The cursor column (C2)\<close>

lemma quot_nonneg: "0 \<le> a \<Longrightarrow> 0 < b \<Longrightarrow> 0 \<le> quot a b"
  by (simp add: quot_def sgn_if pos_imp_zdiv_nonneg_iff)

lemma control_columnOk:
  assumes "1 \<le> Width v" "columnOk v"
  shows "columnOk (control b v)"
proof -
  have "0 \<le> quot (X (Cursor v)) 4" using assms(2) by (intro quot_nonneg) (simp_all add: columnOk_def)
  then have "0 \<le> (quot (X (Cursor v)) 4 + 1) * 4" by simp
  then show ?thesis
    using assms
    by (auto simp: control_def backspace_def horizontalTab_def linefeed_def carriageReturn_def
        Let_def columnOk_def min_def split: if_splits)
qed

lemma control_same [simp]:
  "Width (control b v) = Width v" "AutoResizeX (control b v) = AutoResizeX v"
  by (simp_all add: control_def backspace_def horizontalTab_def linefeed_def carriageReturn_def Let_def)

lemma updateAttributes_columnOk:
  "updateAttributes v ps = (e, v') \<Longrightarrow>
   columnOk v' = columnOk v \<and> AutoResizeX v' = AutoResizeX v \<and> Width v' = Width v"
  by (auto simp: updateAttributes_def Let_def columnOk_def split: prod.splits)

lemma columnOk_same_but_cells:
  assumes "v'\<lparr>Content := Content v, Format := Format v\<rparr> = v"
  shows "columnOk v' = columnOk v"
  using same_but_cells[OF assms] by (simp add: columnOk_def)

lemma escape_columnOk:
  assumes "wf v" "columnOk v" "\<not> setsColumn (Escape final ps priv)"
    and "escape final ps v = Inr (e, v')"
  shows "columnOk v' \<and> AutoResizeX v' = AutoResizeX v"
proof -
  have nc: "final \<noteq> CHR ''C''" "final \<noteq> CHR ''D''" "final \<noteq> CHR ''H''" "final \<noteq> CHR ''f''"
    using assms(3) by (simp_all add: setsColumn_def)
  consider "final = CHR ''J''" | "final = CHR ''K''" | "final = CHR ''m''"
    | "final = CHR ''A'' \<or> final = CHR ''B'' \<or> final = CHR ''s'' \<or> final = CHR ''u''"
    | "final \<noteq> CHR ''J''" "final \<noteq> CHR ''K''" "final \<noteq> CHR ''m''"
      "final \<noteq> CHR ''A''" "final \<noteq> CHR ''B''" "final \<noteq> CHR ''s''" "final \<noteq> CHR ''u''"
    by blast
  then show ?thesis
  proof cases
    case 1
    then obtain u where "eraseLines v (param ps 0 0) = Inr u" "v' = u"
      using assms(4) by (auto simp: escape_def Let_def andThen_eq_Inr)
    then have k: "v'\<lparr>Content := Content v, Format := Format v\<rparr> = v"
      using eraseLines_keeps[OF assms(1)] by blast
    show ?thesis using columnOk_same_but_cells[OF k] same_but_cells(4)[OF k] assms(2) by simp
  next
    case 2
    then obtain u where "eraseColumns v (param ps 0 0) = Inr u" "v' = u"
      using assms(4) by (auto simp: escape_def Let_def andThen_eq_Inr)
    then have k: "v'\<lparr>Content := Content v, Format := Format v\<rparr> = v"
      using eraseColumns_keeps[OF assms(1)] by blast
    show ?thesis using columnOk_same_but_cells[OF k] same_but_cells(4)[OF k] assms(2) by simp
  next
    case 3
    then have "updateAttributes v ps = (e, v')"
      using assms(4) by (auto simp: escape_def Let_def)
    from updateAttributes_columnOk[OF this] show ?thesis using assms(2) by simp
  next
    case 4
    then consider "final = CHR ''A''" | "final = CHR ''B''" | "final = CHR ''s''" | "final = CHR ''u''"
      by blast
    then show ?thesis
    proof cases
      case 1
      then have "v' = home v (Y (Cursor v) - motionParam ps 0) (X (Cursor v))"
        using assms(4) by (simp add: escape_def Let_def)
      then show ?thesis using assms(2) by (simp add: home_def columnOk_def)
    next
      case 2
      then have "v' = home v (Y (Cursor v) + motionParam ps 0) (X (Cursor v))"
        using assms(4) by (simp add: escape_def Let_def)
      then show ?thesis using assms(2) by (simp add: home_def columnOk_def)
    next
      case 3
      then have "v' = save v" using assms(4) by (simp add: escape_def Let_def)
      then show ?thesis using assms(2) by (simp add: save_def columnOk_def)
    next
      case 4
      then have "v' = unsave v" using assms(4) by (simp add: escape_def Let_def)
      then show ?thesis using assms(2) by (simp add: unsave_def columnOk_def)
    qed
  next
    case 5
    then have "v' = v" using assms(4) nc by (simp add: escape_def Let_def)
    then show ?thesis using assms(2) by simp
  qed
qed

lemma display_columnOk:
  assumes "wf v" "columnOk v" "\<not> setsColumn c" "display c v = Inr (e, v')"
  shows "columnOk v' \<and> AutoResizeX v' = AutoResizeX v"
proof (cases c)
  case (PutRune r)
  then obtain u where u: "put v r = Inr u" "v' = u"
    using assms(4) by (auto simp: andThen_eq_Inr)
  note p = put_preserves[OF assms(1) u(1)]
  show ?thesis
    using p(2,3,5,7,8) assms(2) unfolding u(2) columnOk_def
    by (auto split: if_splits)
next
  case (Control b)
  have "1 \<le> Width v" using assms(1) by (simp add: wf_def)
  then show ?thesis using Control assms control_columnOk by auto
next
  case (Escape final ps priv)
  then show ?thesis using assms escape_columnOk by auto
qed

lemma processAll_columnOk:
  assumes "wf v" "columnOk v" "list_all (\<lambda>c. \<not> setsColumn c) cs" "processAll v cs = Inr v'"
  shows "wf v' \<and> columnOk v' \<and> AutoResizeX v' = AutoResizeX v"
  using assms
proof (induction cs arbitrary: v)
  case Nil
  then show ?case by simp
next
  case (Cons c cs)
  from Cons.prems(4) obtain e u where u: "Process v c = Inr (e, u)" "processAll u cs = Inr v'"
    by (auto split: sum.splits)
  then have d: "display c v = Inr (e, u)" by (simp add: Process_def)
  have "wf u" by (rule display_wf[OF Cons.prems(1) d])
  moreover have cu: "columnOk u \<and> AutoResizeX u = AutoResizeX v"
    using display_columnOk[OF Cons.prems(1,2) _ d] Cons.prems(3) by simp
  ultimately have "wf v' \<and> columnOk v' \<and> AutoResizeX v' = AutoResizeX u"
    using Cons.IH[of u] Cons.prems(3) u(2) by simp
  then show ?case using cu by simp
qed

text \<open>
  Every command but the column-setting escapes keeps the column on the grid. Start
  from a well-formed terminal whose cursor column and saved cursor column are in
  bounds, and process any sequence of commands none of which is CSI C, CSI D, CSI H or
  CSI f. If no command panics, the cursor column ends within
  \<open>0 \<le> cursor.x \<le> width\<close>, and within \<open>0 \<le> cursor.x < width\<close> unless the terminal
  widens by itself (\<open>AutoResizeX\<close>): \<open>put\<close> with \<open>advance\<close>, \<open>backspace\<close>,
  \<open>resize\<close>, the controls and the other escapes all keep the bound.
\<close>

lemma cursor_column_in_bounds:
  assumes "wf v" "columnOk v" "list_all (\<lambda>c. \<not> setsColumn c) cs" "processAll v cs = Inr v'"
  shows "0 \<le> X (Cursor v') \<and> X (Cursor v') \<le> Width v'
         \<and> (\<not> AutoResizeX v \<longrightarrow> X (Cursor v') < Width v')"
  using processAll_columnOk[OF assms] by (auto simp: columnOk_def split: if_splits)

lemma cursor_column_in_bounds_example:
  "wf testEraseTerminal \<and> columnOk testEraseTerminal
   \<and> list_all (\<lambda>c. \<not> setsColumn c)
        [PutRune 120, PutRune 121, Control (CHR 0x09), Escape (CHR ''K'') [] None,
         Control (CHR 0x08), Escape (CHR ''A'') [Some 7] None]
   \<and> (\<exists>v'. processAll testEraseTerminal
              [PutRune 120, PutRune 121, Control (CHR 0x09), Escape (CHR ''K'') [] None,
               Control (CHR 0x08), Escape (CHR ''A'') [Some 7] None] = Inr v'
          \<and> 0 \<le> X (Cursor v') \<and> X (Cursor v') \<le> Width v' \<and> X (Cursor v') < Width v')
   \<and> map_sum id (\<lambda>v. (Y (Cursor v), X (Cursor v), Width v))
        (processAll testEraseTerminal
              [PutRune 120, PutRune 121, Control (CHR 0x09), Escape (CHR ''K'') [] None,
               Control (CHR 0x08), Escape (CHR ''A'') [Some 7] None])
       = Inr (- 5, 2, 4)"
proof -
  let ?cs = "[PutRune 120, PutRune 121, Control (CHR 0x09), Escape (CHR ''K'') [] None,
               Control (CHR 0x08), Escape (CHR ''A'') [Some 7] None]"
  have h: "columnOk testEraseTerminal" "list_all (\<lambda>c. \<not> setsColumn c) ?cs"
    "\<not> AutoResizeX testEraseTerminal"
    by code_simp+
  have e: "map_sum id (\<lambda>v. (Y (Cursor v), X (Cursor v), Width v)) (processAll testEraseTerminal ?cs)
       = Inr (- 5, 2, 4)"
    by code_simp
  then obtain v' where v': "processAll testEraseTerminal ?cs = Inr v'"
    by (cases "processAll testEraseTerminal ?cs") auto
  from cursor_column_in_bounds[OF wf_testEraseTerminal h(1,2) v'] h(3)
  have "0 \<le> X (Cursor v') \<and> X (Cursor v') \<le> Width v' \<and> X (Cursor v') < Width v'"
    by simp
  then show ?thesis using wf_testEraseTerminal h(1,2) e v' by blast
qed


section \<open>The reset marker of SGR 0 (C8)\<close>

lemma sgr_keeps_Reset: "p \<noteq> 0 \<Longrightarrow> sgr f p = Some f' \<Longrightarrow> Reset f' = Reset f"
  unfolding sgr_def by (auto split: if_splits)

lemma sgrAll_keeps_Reset:
  "list_all (\<lambda>p. p \<noteq> 0) ps \<Longrightarrow> Reset (fst (sgrAll f ps)) = Reset f"
proof (induction ps arbitrary: f)
  case Nil
  then show ?case by simp
next
  case (Cons p ps)
  then have p: "p \<noteq> 0" and ps: "list_all (\<lambda>p. p \<noteq> 0) ps" by simp_all
  show ?case
  proof (cases "sgr f p")
    case None
    then show ?thesis using Cons.IH[OF ps, of f] by (cases "sgrAll f ps") simp
  next
    case (Some f')
    then show ?thesis using Cons.IH[OF ps, of f'] sgr_keeps_Reset[OF p Some] by simp
  qed
qed

lemma updateAttributes_reset:
  "updateAttributes v [Some 0] = (None, v\<lparr>Cursor := (Cursor v)\<lparr>F := zeroFormat\<lparr>Reset := True\<rparr>\<rparr>\<rparr>)"
  "updateAttributes v [] = (None, v\<lparr>Cursor := (Cursor v)\<lparr>F := zeroFormat\<lparr>Reset := True\<rparr>\<rparr>\<rparr>)"
  by (simp_all add: updateAttributes_def sgr_def)

lemma updateAttributes_keeps_Reset:
  assumes "list_all (\<lambda>p. p \<noteq> None \<and> p \<noteq> Some 0) ps" "ps \<noteq> []"
  shows "Reset (F (Cursor (snd (updateAttributes v ps)))) = Reset (F (Cursor v))"
proof -
  have "list_all (\<lambda>p. p \<noteq> 0) (map (\<lambda>p. case p of None \<Rightarrow> 0 | Some n \<Rightarrow> n) ps)"
    using assms(1) by (induction ps) (auto split: option.splits)
  from sgrAll_keeps_Reset[OF this, of "F (Cursor v)"] show ?thesis
    using assms(2)
    by (cases "sgrAll (F (Cursor v)) (map (\<lambda>p. case p of None \<Rightarrow> 0 | Some n \<Rightarrow> n) ps)")
       (simp add: updateAttributes_def)
qed

lemma resized_same_grid:
  assumes "wf v"
  shows "Content (resized v (Height v) (Width v)) = Content v"
    "Format (resized v (Height v) (Width v)) = Format v"
proof -
  have r: "rect v (nat (Height v)) (nat (Width v))" using assms by (simp add: wf_def)
  then have len: "length (Content v) = nat (Height v)" "length (Format v) = nat (Height v)"
    by (simp_all add: rect_def)
  have "map (fit (nat (Width v)) 32) (Content v) = Content v"
    using r by (intro map_idI) (auto simp: rect_def list_all_iff fit_def)
  moreover have "map (fit (nat (Width v)) zeroFormat) (Format v) = Format v"
    using r by (intro map_idI) (auto simp: rect_def list_all_iff fit_def)
  ultimately show "Content (resized v (Height v) (Width v)) = Content v"
    "Format (resized v (Height v) (Width v)) = Format v"
    using fit_same[of "Content v"] fit_same[of "Format v"] len by (simp_all add: resized_def)
qed

text \<open>A rune put at a cursor on the grid lands in the cell under the cursor.\<close>

lemma put_cell:
  assumes "wf v" "0 \<le> Y (Cursor v)" "Y (Cursor v) < Height v"
    and "0 \<le> X (Cursor v)" "X (Cursor v) < Width v"
  shows "\<exists>v'. put v r = Inr v' \<and> cell v' (Y (Cursor v)) (X (Cursor v)) = (r, F (Cursor v))"
proof -
  define v0 where "v0 = (if Y (Cursor v) > maxY v then v\<lparr>maxY := Y (Cursor v)\<rparr> else v)"
  have wf0: "wf v0" and c0: "Cursor v0 = Cursor v" "Height v0 = Height v" "Width v0 = Width v"
    "Content v0 = Content v" "Format v0 = Format v" "AutoResizeX v0 = AutoResizeX v"
    using assms(1) by (simp_all add: v0_def)
  have s1: "scrollOrResizeYIfNeeded v0 = Inr v0"
    using assms(3) c0 by (simp add: scrollOrResizeYIfNeeded_def)
  obtain v2 where s2: "resizeXIfNeeded v0 = Inr v2" and c2: "Cursor v2 = Cursor v"
    "Content v2 = Content v" "Format v2 = Format v" "Width v2 = Width v"
  proof (cases "AutoResizeX v0 \<and> X (Cursor v0) + 1 \<ge> Width v0")
    case True
    then have w: "X (Cursor v) + 1 = Width v" using assms(5) c0 by simp
    have pos: "0 \<le> Height v0" "0 \<le> Width v0" using wf0 by (simp_all add: wf_def)
    have "resizeXIfNeeded v0 = Inr (resized v0 (Height v0) (Width v0))"
      using True w c0 resize_closed_form[OF wf0 pos] by (simp add: resizeXIfNeeded_def)
    moreover have "Cursor (resized v0 (Height v0) (Width v0)) = Cursor v"
      using assms(5) c0 by (simp add: resized_def)
    moreover have "Width (resized v0 (Height v0) (Width v0)) = Width v"
      using c0 by (simp add: resized_def)
    ultimately show ?thesis using that resized_same_grid[OF wf0] c0 by simp
  next
    case False
    then have "resizeXIfNeeded v0 = Inr v0" by (auto simp: resizeXIfNeeded_def)
    then show ?thesis using that c0 by simp
  qed
  have r: "rect v (nat (Height v)) (nat (Width v))" using assms(1) by (simp add: wf_def)
  have len: "length (Content v) = nat (Height v)" "length (Format v) = nat (Height v)"
    using r by (simp_all add: rect_def)
  have ny: "nat (Y (Cursor v)) < nat (Height v)" using assms(2,3) by simp
  have rows: "length (Content v ! nat (Y (Cursor v))) = nat (Width v)"
    "length (Format v ! nat (Y (Cursor v))) = nat (Width v)"
    using rect_rows[OF r ny] by simp_all
  let ?c = "(Content v)[nat (Y (Cursor v)) := (Content v ! nat (Y (Cursor v)))[nat (X (Cursor v)) := r]]"
  let ?f = "(Format v)[nat (Y (Cursor v)) := (Format v ! nat (Y (Cursor v)))[nat (X (Cursor v)) := F (Cursor v)]]"
  have a1: "assign2 (Content v2) (Y (Cursor v2)) (X (Cursor v2)) r = Inr ?c"
    unfolding c2 by (rule assign2_in) (use assms len rows in simp_all)
  have a2: "assign2 (Format v2) (Y (Cursor v2)) (X (Cursor v2)) (F (Cursor v2)) = Inr ?f"
    unfolding c2 by (rule assign2_in) (use assms len rows in simp_all)
  have "put v r = Inr (advance (v2\<lparr>Content := ?c, Format := ?f\<rparr>))"
    unfolding put_def Let_def v0_def[symmetric] s1 andThen_Inr s2 a1 a2 ..
  moreover have "cell (advance (v2\<lparr>Content := ?c, Format := ?f\<rparr>)) (Y (Cursor v)) (X (Cursor v))
      = (r, F (Cursor v))"
    using ny len rows assms(4,5) by (simp add: cell_def advance_def Let_def)
  ultimately show ?thesis by blast
qed


section \<open>SGR 0 and later attributes\<close>

text \<open>
  C8. SGR parameter 0, and in the same way an empty SGR parameter list, replaces the
  cursor format by the default format with \<open>Reset = true\<close>. Attribute parameters
  applied after it (any list of non-zero parameters, such as 4 and 46) leave
  \<open>Reset = true\<close>. So after "reset, then bold" a rune written at a cursor on the
  grid is stored with the format \<open>{Reset: true, Intensity: Bold}\<close>.
\<close>

theorem sgr_reset_marker:
  "display (Escape (CHR ''m'') [Some 0] priv) v
     = Inr (None, v\<lparr>Cursor := (Cursor v)\<lparr>F := zeroFormat\<lparr>Reset := True\<rparr>\<rparr>\<rparr>)
   \<and> display (Escape (CHR ''m'') [] priv) v = display (Escape (CHR ''m'') [Some 0] priv) v
   \<and> (list_all (\<lambda>p. p \<noteq> None \<and> p \<noteq> Some 0) ps \<and> ps \<noteq> [] \<longrightarrow>
        (\<exists>e v'. display (Escape (CHR ''m'') ps priv)
                    (v\<lparr>Cursor := (Cursor v)\<lparr>F := zeroFormat\<lparr>Reset := True\<rparr>\<rparr>\<rparr>) = Inr (e, v')
                \<and> Reset (F (Cursor v'))))
   \<and> (wf v \<and> 0 \<le> Y (Cursor v) \<and> Y (Cursor v) < Height v
        \<and> 0 \<le> X (Cursor v) \<and> X (Cursor v) < Width v \<longrightarrow>
        (\<exists>v'. processAll v [Escape (CHR ''m'') [Some 0] priv, Escape (CHR ''m'') [Some 1] priv,
                             PutRune r] = Inr v'
           \<and> cell v' (Y (Cursor v)) (X (Cursor v))
               = (r, zeroFormat\<lparr>Reset := True, Intensity := Bold\<rparr>)))"
proof (intro conjI impI)
  show a: "display (Escape (CHR ''m'') [Some 0] priv) v
     = Inr (None, v\<lparr>Cursor := (Cursor v)\<lparr>F := zeroFormat\<lparr>Reset := True\<rparr>\<rparr>\<rparr>)"
    by (simp add: escape_def updateAttributes_reset)
  show "display (Escape (CHR ''m'') [] priv) v = display (Escape (CHR ''m'') [Some 0] priv) v"
    by (simp add: escape_def updateAttributes_reset)
next
  let ?v0 = "v\<lparr>Cursor := (Cursor v)\<lparr>F := zeroFormat\<lparr>Reset := True\<rparr>\<rparr>\<rparr>"
  assume h: "list_all (\<lambda>p. p \<noteq> None \<and> p \<noteq> Some 0) ps \<and> ps \<noteq> []"
  have "display (Escape (CHR ''m'') ps priv) ?v0 = Inr (updateAttributes ?v0 ps)"
    by (simp add: escape_def)
  moreover have "Reset (F (Cursor (snd (updateAttributes ?v0 ps))))"
    using updateAttributes_keeps_Reset[of ps ?v0] h by simp
  ultimately show "\<exists>e v'. display (Escape (CHR ''m'') ps priv) ?v0 = Inr (e, v')
      \<and> Reset (F (Cursor v'))"
    by (cases "updateAttributes ?v0 ps") auto
next
  assume h: "wf v \<and> 0 \<le> Y (Cursor v) \<and> Y (Cursor v) < Height v
        \<and> 0 \<le> X (Cursor v) \<and> X (Cursor v) < Width v"
  let ?v1 = "v\<lparr>Cursor := (Cursor v)\<lparr>F := zeroFormat\<lparr>Reset := True\<rparr>\<rparr>\<rparr>"
  let ?v2 = "v\<lparr>Cursor := (Cursor v)\<lparr>F := zeroFormat\<lparr>Reset := True, Intensity := Bold\<rparr>\<rparr>\<rparr>"
  have p1: "Process v (Escape (CHR ''m'') [Some 0] priv) = Inr (None, ?v1)"
    by (simp add: Process_def escape_def updateAttributes_reset)
  have p2: "Process ?v1 (Escape (CHR ''m'') [Some 1] priv) = Inr (None, ?v2)"
    by (simp add: Process_def escape_def updateAttributes_def sgr_def)
  have "\<exists>v'. put ?v2 r = Inr v' \<and> cell v' (Y (Cursor ?v2)) (X (Cursor ?v2)) = (r, F (Cursor ?v2))"
    by (rule put_cell) (use h in simp_all)
  then obtain v' where v': "put ?v2 r = Inr v'"
    "cell v' (Y (Cursor v)) (X (Cursor v)) = (r, zeroFormat\<lparr>Reset := True, Intensity := Bold\<rparr>)"
    by auto
  have "processAll v [Escape (CHR ''m'') [Some 0] priv, Escape (CHR ''m'') [Some 1] priv, PutRune r]
      = Inr v'"
  proof -
    have p3: "Process ?v2 (PutRune r) = Inr (None, v')" by (simp add: Process_def v'(1))
    show ?thesis by (simp only: processAll.simps p1 p2 p3 sum.case prod.case)
  qed
  then show "\<exists>v'. processAll v [Escape (CHR ''m'') [Some 0] priv, Escape (CHR ''m'') [Some 1] priv,
                             PutRune r] = Inr v'
           \<and> cell v' (Y (Cursor v)) (X (Cursor v))
               = (r, zeroFormat\<lparr>Reset := True, Intensity := Bold\<rparr>)"
    using v'(2) by blast
qed

theorem sgr_reset_marker_witness:
  "list_all (\<lambda>p. p \<noteq> None \<and> p \<noteq> Some 0) [Some 4, Some (46::int)] \<and> [Some 4, Some (46::int)] \<noteq> []
   \<and> wf testEraseTerminal \<and> 0 \<le> Y (Cursor testEraseTerminal)
   \<and> Y (Cursor testEraseTerminal) < Height testEraseTerminal
   \<and> 0 \<le> X (Cursor testEraseTerminal) \<and> X (Cursor testEraseTerminal) < Width testEraseTerminal
   \<and> (\<exists>e v'. display (Escape (CHR ''m'') [Some 4, Some 46] None)
                (testEraseTerminal\<lparr>Cursor := (Cursor testEraseTerminal)\<lparr>F := zeroFormat\<lparr>Reset := True\<rparr>\<rparr>\<rparr>)
                = Inr (e, v')
              \<and> Reset (F (Cursor v')))
   \<and> (\<exists>v'. processAll testEraseTerminal
               [Escape (CHR ''m'') [Some 0] None, Escape (CHR ''m'') [Some 1] None, PutRune 99] = Inr v'
           \<and> cell v' (Y (Cursor testEraseTerminal)) (X (Cursor testEraseTerminal))
               = (99, zeroFormat\<lparr>Reset := True, Intensity := Bold\<rparr>))
   \<and> map_sum id (\<lambda>v. F (Cursor v))
        (processAll testEraseTerminal
           [Escape (CHR ''m'') [] None, Escape (CHR ''m'') [Some 4, Some 46] None])
       = Inr (zeroFormat\<lparr>Reset := True, Underline := True, Bg := ANSIColor 6\<rparr>)"
proof -
  have h1: "list_all (\<lambda>p. p \<noteq> None \<and> p \<noteq> Some 0) [Some 4, Some (46::int)] \<and> [Some 4, Some (46::int)] \<noteq> []"
    by simp
  have h2: "wf testEraseTerminal \<and> 0 \<le> Y (Cursor testEraseTerminal)
   \<and> Y (Cursor testEraseTerminal) < Height testEraseTerminal
   \<and> 0 \<le> X (Cursor testEraseTerminal) \<and> X (Cursor testEraseTerminal) < Width testEraseTerminal"
    using wf_testEraseTerminal by (simp add: testEraseTerminal_def)
  note t = sgr_reset_marker[of None testEraseTerminal "[Some 4, Some 46]" 99]
  note t3 = mp[OF conjunct1[OF conjunct2[OF conjunct2[OF t]]] h1]
  note t4 = mp[OF conjunct2[OF conjunct2[OF conjunct2[OF t]]] h2]
  have e: "map_sum id (\<lambda>v. F (Cursor v))
        (processAll testEraseTerminal
           [Escape (CHR ''m'') [] None, Escape (CHR ''m'') [Some 4, Some 46] None])
       = Inr (zeroFormat\<lparr>Reset := True, Underline := True, Bg := ANSIColor 6\<rparr>)"
    by code_simp
  show ?thesis using h1 h2 t3 t4 e by blast
qed

section \<open>Errors and the grid (C5)\<close>

lemma escape_supported:
  "escape (CHR ''A'') ps v = Inr (None, home v (Y (Cursor v) - motionParam ps 0) (X (Cursor v)))"
  "escape (CHR ''B'') ps v = Inr (None, home v (Y (Cursor v) + motionParam ps 0) (X (Cursor v)))"
  "escape (CHR ''C'') ps v = Inr (None, home v (Y (Cursor v)) (X (Cursor v) + motionParam ps 0))"
  "escape (CHR ''D'') ps v = Inr (None, home v (Y (Cursor v)) (X (Cursor v) - motionParam ps 0))"
  "escape (CHR ''H'') ps v = Inr (None, home v (motionParam ps 0 - 1) (motionParam ps 1 - 1))"
  "escape (CHR ''f'') ps v = Inr (None, home v (motionParam ps 0 - 1) (motionParam ps 1 - 1))"
  "escape (CHR ''J'') ps v = andThen (eraseLines v (param ps 0 0)) (\<lambda>v. Inr (None, v))"
  "escape (CHR ''K'') ps v = andThen (eraseColumns v (param ps 0 0)) (\<lambda>v. Inr (None, v))"
  "escape (CHR ''m'') ps v = Inr (updateAttributes v ps)"
  "escape (CHR ''s'') ps v = Inr (None, save v)"
  "escape (CHR ''u'') ps v = Inr (None, unsave v)"
  by (simp_all add: escape_def Let_def)

lemma supported_finals:
  "final \<in> set ''ABCDHfJKmsu'' \<longleftrightarrow>
     final = CHR ''A'' \<or> final = CHR ''B'' \<or> final = CHR ''C'' \<or> final = CHR ''D''
     \<or> final = CHR ''H'' \<or> final = CHR ''f'' \<or> final = CHR ''J'' \<or> final = CHR ''K''
     \<or> final = CHR ''m'' \<or> final = CHR ''s'' \<or> final = CHR ''u''"
  by simp

lemma escape_unsupported:
  assumes "final \<notin> set ''ABCDHfJKmsu''"
  shows "escape final ps v = Inr (Some (UnsupportedCommand final), v)"
  using assms unfolding supported_finals by (simp add: escape_def Let_def)

lemma writeLoop_error:
  assumes "buf \<noteq> []" "Decode buf = DecodeError k"
  shows "writeLoop Decode v buf =
    Inr (if 0 < length (drop k buf) \<and> length (drop k buf) < 12
         then v\<lparr>unparsed := drop k buf\<rparr> else v)"
  using assms by (subst writeLoop.simps) (simp add: Let_def)

lemma writeLoop_step:
  assumes "buf \<noteq> []" "Decode buf = Decoded cmd k" "display cmd v = Inr (err, v')"
  shows "writeLoop Decode v buf = writeLoop Decode v' (drop (Suc k) buf)"
  using assms by (subst writeLoop.simps) simp

lemma writeLoop_wf:
  assumes "wf v" "writeLoop Decode v buf = Inr v'"
  shows "wf v'"
  using assms
proof (induction "length buf" arbitrary: v buf rule: less_induct)
  case less
  show ?case
  proof (cases "buf = []")
    case True
    then show ?thesis using less.prems by (simp add: writeLoop.simps)
  next
    case ne: False
    show ?thesis
    proof (cases "Decode buf")
      case (DecodeError k)
      then show ?thesis
        using less.prems ne by (auto simp: writeLoop_error split: if_splits)
    next
      case (Decoded cmd k)
      show ?thesis
      proof (cases "display cmd v")
        case (Inl p)
        then show ?thesis
          using less.prems(2) ne Decoded by (subst (asm) writeLoop.simps) simp
      next
        case (Inr r)
        obtain err u where r: "r = (err, u)" by (cases r)
        have d: "display cmd v = Inr (err, u)" using Inr r by simp
        have "writeLoop Decode u (drop (Suc k) buf) = Inr v'"
          using less.prems(2) writeLoop_step[of buf Decode cmd k v err u, OF ne Decoded d] by simp
        moreover have "wf u" by (rule display_wf[OF less.prems(1) d])
        moreover have "length (drop (Suc k) buf) < length buf" using ne by simp
        ultimately show ?thesis using less.hyps by blast
      qed
    qed
  qed
qed

lemma Write_wf:
  assumes "wf v" "Write Decode v dt = Inr (n, v')"
  shows "wf v' \<and> n = length dt"
proof (cases "length (unparsed v) > 0")
  case True
  then obtain u where "writeLoop Decode (v\<lparr>unparsed := []\<rparr>) (unparsed v @ dt) = Inr u"
    "v' = u" "n = length dt"
    using assms(2) by (auto simp: Write_def Let_def andThen_eq_Inr)
  then show ?thesis using writeLoop_wf[of "v\<lparr>unparsed := []\<rparr>" Decode] assms(1) by simp
next
  case False
  then obtain u where "writeLoop Decode v dt = Inr u" "v' = u" "n = length dt"
    using assms(2) by (auto simp: Write_def Let_def andThen_eq_Inr)
  then show ?thesis using writeLoop_wf[of v Decode] assms(1) by simp
qed

lemma decodeAll_nil: "decodeAll Decode [] = ([], None)"
  by (subst decodeAll.simps) simp

lemma decodeAll_error:
  assumes "buf \<noteq> []" "Decode buf = DecodeError k"
  shows "decodeAll Decode buf = ([], Some (drop k buf))"
  using assms by (subst decodeAll.simps) simp

lemma decodeAll_step:
  assumes "buf \<noteq> []" "Decode buf = Decoded cmd k"
    "decodeAll Decode (drop (Suc k) buf) = (cmds, rest)"
  shows "decodeAll Decode buf = (cmd # cmds, rest)"
  using assms by (subst decodeAll.simps) simp

lemma writeLoop_panic:
  assumes "buf \<noteq> []" "Decode buf = Decoded cmd k" "display cmd v = Inl p"
  shows "writeLoop Decode v buf = Inl p"
  using assms by (subst writeLoop.simps) simp

lemma writeLoop_decodeAll:
  "writeLoop Decode v buf =
     (case decodeAll Decode buf of
        (cmds, rest) \<Rightarrow>
          andThen (processAll v cmds) (\<lambda>u. Inr
            (case rest of
               None \<Rightarrow> u
             | Some r \<Rightarrow> if 0 < length r \<and> length r < 12 then u\<lparr>unparsed := r\<rparr> else u)))"
proof (induction "length buf" arbitrary: v buf rule: less_induct)
  case less
  show ?case
  proof (cases "buf = []")
    case True
    then show ?thesis by (simp add: writeLoop.simps decodeAll_nil)
  next
    case ne: False
    show ?thesis
    proof (cases "Decode buf")
      case (DecodeError k)
      then show ?thesis
        using ne by (simp add: writeLoop_error decodeAll_error)
    next
      case (Decoded cmd k)
      obtain cmds rest where r: "decodeAll Decode (drop (Suc k) buf) = (cmds, rest)"
        by (cases "decodeAll Decode (drop (Suc k) buf)")
      note s = decodeAll_step[of buf Decode cmd k cmds rest, OF ne Decoded r]
      show ?thesis
      proof (cases "display cmd v")
        case (Inl p)
        then show ?thesis
          using writeLoop_panic[of buf Decode cmd k v p, OF ne Decoded Inl] s by (simp add: Process_def)
      next
        case (Inr q)
        obtain err u where q: "q = (err, u)" by (cases q)
        have d: "display cmd v = Inr (err, u)" using Inr q by simp
        have l: "length (drop (Suc k) buf) < length buf" using ne by simp
        have "writeLoop Decode v buf = writeLoop Decode u (drop (Suc k) buf)"
          using writeLoop_step[of buf Decode cmd k v err u, OF ne Decoded d] .
        also have "\<dots> = andThen (processAll u cmds) (\<lambda>u. Inr
            (case rest of
               None \<Rightarrow> u
             | Some r \<Rightarrow> if 0 < length r \<and> length r < 12 then u\<lparr>unparsed := r\<rparr> else u))"
          using less[OF l, of u] r by simp
        finally show ?thesis using s d by (simp add: Process_def)
      qed
    qed
  qed
qed

lemma andThen_assoc: "andThen (andThen m f) g = andThen m (\<lambda>a. andThen (f a) g)"
  by (cases m) simp_all

lemma Write_decodeAll:
  "Write Decode v dt =
     (case decodeAll Decode (unparsed v @ dt) of
        (cmds, rest) \<Rightarrow>
          andThen (processAll (v\<lparr>unparsed := []\<rparr>) cmds) (\<lambda>u. Inr (length dt,
            case rest of
              None \<Rightarrow> u
            | Some r \<Rightarrow> if 0 < length r \<and> length r < 12 then u\<lparr>unparsed := r\<rparr> else u)))"
proof (cases "unparsed v = []")
  case True
  then have e: "v\<lparr>unparsed := []\<rparr> = v" by simp
  show ?thesis
    unfolding e using True
    by (cases "decodeAll Decode dt")
      (simp add: Write_def Let_def writeLoop_decodeAll andThen_assoc)
next
  case False
  then show ?thesis
    by (cases "decodeAll Decode (unparsed v @ dt)")
      (simp add: Write_def Let_def writeLoop_decodeAll andThen_assoc)
qed


lemma updateAttributes_frame:
  "\<exists>e f. updateAttributes v ps = (e, v\<lparr>Cursor := (Cursor v)\<lparr>F := f\<rparr>\<rparr>)
     \<and> (\<forall>err. e = Some err \<longrightarrow> (\<exists>us. err = UnknownAttributes us))"
proof -
  obtain f us where s: "sgrAll (F (Cursor v))
        (if ps = [] then [0] else map (\<lambda>p. case p of None \<Rightarrow> 0 | Some n \<Rightarrow> n) ps) = (f, us)"
    by (cases "sgrAll (F (Cursor v))
        (if ps = [] then [0] else map (\<lambda>p. case p of None \<Rightarrow> 0 | Some n \<Rightarrow> n) ps)")
  show ?thesis
    by (rule exI[of _ "if us = [] then None else Some (UnknownAttributes us)"],
        rule exI[of _ f])
       (simp add: updateAttributes_def s)
qed

lemma escape_no_error:
  assumes "final \<in> set ''ABCDHfJKsu''"
  shows "escape final ps v \<noteq> Inr (Some err, v1)"
proof -
  from assms have "final = CHR ''A'' \<or> final = CHR ''B'' \<or> final = CHR ''C''
     \<or> final = CHR ''D'' \<or> final = CHR ''H'' \<or> final = CHR ''f'' \<or> final = CHR ''J''
     \<or> final = CHR ''K'' \<or> final = CHR ''s'' \<or> final = CHR ''u''"
    by simp
  then show ?thesis
  proof (elim disjE)
    assume "final = CHR ''A''"
    then show ?thesis by (simp add: escape_supported)
  next
    assume "final = CHR ''B''"
    then show ?thesis by (simp add: escape_supported)
  next
    assume "final = CHR ''C''"
    then show ?thesis by (simp add: escape_supported)
  next
    assume "final = CHR ''D''"
    then show ?thesis by (simp add: escape_supported)
  next
    assume "final = CHR ''H''"
    then show ?thesis by (simp add: escape_supported)
  next
    assume "final = CHR ''f''"
    then show ?thesis by (simp add: escape_supported)
  next
    assume "final = CHR ''J''"
    then show ?thesis by (simp add: escape_supported andThen_eq_Inr)
  next
    assume "final = CHR ''K''"
    then show ?thesis by (simp add: escape_supported andThen_eq_Inr)
  next
    assume "final = CHR ''s''"
    then show ?thesis by (simp add: escape_supported)
  next
    assume "final = CHR ''u''"
    then show ?thesis by (simp add: escape_supported)
  qed
qed

lemma escape_errors:
  assumes "escape final ps v = Inr (Some err, v1)"
  shows "(final \<notin> set ''ABCDHfJKmsu'' \<and> err = UnsupportedCommand final \<and> v1 = v)
       \<or> (final = CHR ''m'' \<and>
            (\<exists>us f. err = UnknownAttributes us \<and> v1 = v\<lparr>Cursor := (Cursor v)\<lparr>F := f\<rparr>\<rparr>))"
proof (cases "final = CHR ''m''")
  case m: True
  obtain e f where u: "updateAttributes v ps = (e, v\<lparr>Cursor := (Cursor v)\<lparr>F := f\<rparr>\<rparr>)"
    and k: "\<forall>err. e = Some err \<longrightarrow> (\<exists>us. err = UnknownAttributes us)"
    using updateAttributes_frame[of v ps] by blast
  have "e = Some err" "v1 = v\<lparr>Cursor := (Cursor v)\<lparr>F := f\<rparr>\<rparr>"
    using assms m u by (simp_all add: escape_supported)
  then have "\<exists>us f. err = UnknownAttributes us \<and> v1 = v\<lparr>Cursor := (Cursor v)\<lparr>F := f\<rparr>\<rparr>"
    using k by blast
  then show ?thesis using m by (rule_tac disjI2) (rule conjI)
next
  case False
  have "final \<notin> set ''ABCDHfJKsu''"
    using assms escape_no_error[of final ps v err v1] by blast
  then have n: "final \<notin> set ''ABCDHfJKmsu''" using False by simp
  then have "err = UnsupportedCommand final \<and> v1 = v"
    using assms escape_unsupported[OF n, of ps v] by simp
  then show ?thesis using n by (rule_tac disjI1) (rule conjI)
qed

lemma display_errors:
  assumes "display c v = Inr (Some err, v1)"
  shows "(\<exists>final ps priv. c = Escape final ps priv \<and> final \<notin> set ''ABCDHfJKmsu''
            \<and> err = UnsupportedCommand final \<and> v1 = v)
       \<or> (\<exists>ps priv us f. c = Escape (CHR ''m'') ps priv \<and> err = UnknownAttributes us
            \<and> v1 = v\<lparr>Cursor := (Cursor v)\<lparr>F := f\<rparr>\<rparr>)"
proof (cases c)
  case (PutRune r)
  have "display (PutRune r) v \<noteq> Inr (Some err, v1)" by (simp add: andThen_eq_Inr)
  then show ?thesis using assms PutRune by simp
next
  case (Control b)
  have "display (Control b) v \<noteq> Inr (Some err, v1)" by simp
  then show ?thesis using assms Control by simp
next
  case (Escape final ps priv)
  then have "escape final ps v = Inr (Some err, v1)" using assms by simp
  from escape_errors[OF this] show ?thesis
  proof (elim disjE conjE exE)
    assume a: "final \<notin> set ''ABCDHfJKmsu''" "err = UnsupportedCommand final" "v1 = v"
    have k: "c = Escape final ps priv \<and> final \<notin> set ''ABCDHfJKmsu''
        \<and> err = UnsupportedCommand final \<and> v1 = v"
      using Escape a by (intro conjI) assumption+
    have "\<exists>final ps priv. c = Escape final ps priv \<and> final \<notin> set ''ABCDHfJKmsu''
        \<and> err = UnsupportedCommand final \<and> v1 = v"
      by (rule exI[of _ final], rule exI[of _ ps], rule exI[of _ priv]) (rule k)
    then show ?thesis by (rule disjI1)
  next
    fix us f
    assume a: "final = CHR ''m''" "err = UnknownAttributes us"
      "v1 = v\<lparr>Cursor := (Cursor v)\<lparr>F := f\<rparr>\<rparr>"
    have "c = Escape (CHR ''m'') ps priv" using Escape a(1) by simp
    then have k: "c = Escape (CHR ''m'') ps priv \<and> err = UnknownAttributes us
        \<and> v1 = v\<lparr>Cursor := (Cursor v)\<lparr>F := f\<rparr>\<rparr>"
      using a(2,3) by (intro conjI) assumption+
    have "\<exists>ps priv us f. c = Escape (CHR ''m'') ps priv \<and> err = UnknownAttributes us
        \<and> v1 = v\<lparr>Cursor := (Cursor v)\<lparr>F := f\<rparr>\<rparr>"
      by (rule exI[of _ ps], rule exI[of _ priv], rule exI[of _ us], rule exI[of _ f]) (rule k)
    then show ?thesis by (rule disjI2)
  qed
qed

text \<open>
  C5. The claim is that a command that fails leaves the terminal state unchanged and
  that an operation either applies fully or is skipped. Two runs show otherwise. The
  escape CSI 1;999 m returns an error for the unknown code 999 and has made the cursor
  format bold. A decode error changes \<open>unparsed\<close>: when the decoder fails at ESC [
  without reading it, \<open>Write\<close> ends with these two bytes in \<open>unparsed\<close>, which was
  empty; and when an ESC is pending in \<open>unparsed\<close> and the decoder fails after
  reading the whole buffer, \<open>Write\<close> ends with \<open>unparsed\<close> empty.
\<close>

theorem failed_commands_change_state:
  "map_sum id (\<lambda>(e, v). (e, Intensity (F (Cursor v))))
      (Process testEraseTerminal (Escape (CHR ''m'') [Some 1, Some 999] None))
     = Inr (Some (UnknownAttributes [999]), Bold)
   \<and> Intensity (F (Cursor testEraseTerminal)) = Normal
   \<and> map_sum id (\<lambda>(n, v). unparsed v)
        (Write (\<lambda>buf. DecodeError 0) testEraseTerminal [CHR 0x1B, CHR ''['']) 
     = Inr [CHR 0x1B, CHR ''['']
   \<and> unparsed testEraseTerminal = []
   \<and> map_sum id (\<lambda>(n, v). unparsed v)
        (Write (\<lambda>buf. DecodeError (length buf))
           (testEraseTerminal\<lparr>unparsed := [CHR 0x1B]\<rparr>) [CHR ''['']) 
     = Inr []"
  by code_simp

text \<open>
  C5, as amended. On a well-formed terminal, an escape with an unsupported final byte
  returns the unsupported-command error and leaves the whole terminal as it was. The
  only other error that \<open>Process\<close> returns is the one of an SGR escape with unknown
  codes, and then nothing but the cursor format has changed. \<open>Write\<close> is the
  following: the pending bytes and the new ones are decoded up to the first decode
  error, the decoded commands are applied in order as \<open>Process\<close> applies them to the
  terminal with \<open>unparsed\<close> emptied, and at a decode error the unread bytes are
  stored in \<open>unparsed\<close> when there are between 1 and 11 of them; so a decode error
  changes \<open>unparsed\<close> and nothing else. Whatever \<open>Process\<close> or \<open>Write\<close> return,
  with or without an error, the grid keeps its shape: exactly \<open>Height\<close> rows of
  \<open>Width\<close> cells, runes and formats parallel. (A panic is not an error that is
  returned: it ends the call.)
\<close>

theorem errors_keep_grid:
  assumes "wf v"
  shows "(final \<notin> set ''ABCDHfJKmsu'' \<longrightarrow>
            Process v (Escape final ps priv) = Inr (Some (UnsupportedCommand final), v))
   \<and> (Process v c = Inr (Some err, v1) \<longrightarrow>
        (\<exists>final ps priv. c = Escape final ps priv \<and> final \<notin> set ''ABCDHfJKmsu''
            \<and> err = UnsupportedCommand final \<and> v1 = v)
        \<or> (\<exists>ps priv us f. c = Escape (CHR ''m'') ps priv \<and> err = UnknownAttributes us
            \<and> v1 = v\<lparr>Cursor := (Cursor v)\<lparr>F := f\<rparr>\<rparr>))
   \<and> (Process v c2 = Inr (e, v2) \<longrightarrow> wf v2)
   \<and> Write Decode v dt =
       (case decodeAll Decode (unparsed v @ dt) of
          (cmds, rest) \<Rightarrow>
            andThen (processAll (v\<lparr>unparsed := []\<rparr>) cmds) (\<lambda>u. Inr (length dt,
              case rest of
                None \<Rightarrow> u
              | Some r \<Rightarrow> if 0 < length r \<and> length r < 12 then u\<lparr>unparsed := r\<rparr> else u)))
   \<and> (Write Decode v dt = Inr (n, v3) \<longrightarrow> wf v3 \<and> n = length dt)"
proof (intro conjI impI)
  show "Process v (Escape final ps priv) = Inr (Some (UnsupportedCommand final), v)"
    if "final \<notin> set ''ABCDHfJKmsu''"
    using escape_unsupported[OF that] by (simp add: Process_def)
  show "(\<exists>final ps priv. c = Escape final ps priv \<and> final \<notin> set ''ABCDHfJKmsu''
            \<and> err = UnsupportedCommand final \<and> v1 = v)
        \<or> (\<exists>ps priv us f. c = Escape (CHR ''m'') ps priv \<and> err = UnknownAttributes us
            \<and> v1 = v\<lparr>Cursor := (Cursor v)\<lparr>F := f\<rparr>\<rparr>)"
    if "Process v c = Inr (Some err, v1)"
    using display_errors[of c v err v1] that by (simp add: Process_def)
  show "wf v2" if "Process v c2 = Inr (e, v2)"
    using display_wf[OF assms] that by (simp add: Process_def)
  show "Write Decode v dt =
       (case decodeAll Decode (unparsed v @ dt) of
          (cmds, rest) \<Rightarrow>
            andThen (processAll (v\<lparr>unparsed := []\<rparr>) cmds) (\<lambda>u. Inr (length dt,
              case rest of
                None \<Rightarrow> u
              | Some r \<Rightarrow> if 0 < length r \<and> length r < 12 then u\<lparr>unparsed := r\<rparr> else u)))"
    by (rule Write_decodeAll)
  show "wf v3" "n = length dt" if "Write Decode v dt = Inr (n, v3)"
    using Write_wf[OF assms that] by simp_all
qed

theorem errors_keep_grid_witness:
  "wf testEraseTerminal \<and> CHR ''Z'' \<notin> set ''ABCDHfJKmsu''
   \<and> Process testEraseTerminal (Escape (CHR ''Z'') [] None)
       = Inr (Some (UnsupportedCommand (CHR ''Z'')), testEraseTerminal)
   \<and> Process testEraseTerminal (Escape (CHR ''m'') [Some 1, Some 999] None)
       = Inr (Some (UnknownAttributes [999]),
              testEraseTerminal\<lparr>Cursor := (Cursor testEraseTerminal)
                 \<lparr>F := zeroFormat\<lparr>Intensity := Bold\<rparr>\<rparr>\<rparr>)
   \<and> (\<exists>ps priv us f.
         Escape (CHR ''m'') [Some 1, Some 999] None = Escape (CHR ''m'') ps priv
       \<and> UnknownAttributes [999] = UnknownAttributes us
       \<and> testEraseTerminal\<lparr>Cursor := (Cursor testEraseTerminal)
                 \<lparr>F := zeroFormat\<lparr>Intensity := Bold\<rparr>\<rparr>\<rparr>
          = testEraseTerminal\<lparr>Cursor := (Cursor testEraseTerminal)\<lparr>F := f\<rparr>\<rparr>)
   \<and> (\<exists>e v2. Process testEraseTerminal (PutRune 120) = Inr (e, v2) \<and> wf v2)
   \<and> (\<exists>v3. Write (\<lambda>buf. if hd buf = CHR 0x1B then DecodeError 0
                           else Decoded (PutRune (of_char (hd buf))) 0)
               testEraseTerminal [CHR ''x'', CHR 0x1B, CHR ''[''] = Inr (3, v3)
          \<and> wf v3
          \<and> Content v3 = [[97, 98, 99, 100], [101, 102, 120, 104], [105, 106, 107, 108]]
          \<and> unparsed v3 = [CHR 0x1B, CHR ''[''])"
proof -
  let ?D = "\<lambda>buf. if hd buf = CHR 0x1B then DecodeError 0
                           else Decoded (PutRune (of_char (hd buf))) 0"
  let ?dt = "[CHR ''x'', CHR 0x1B, CHR ''['']"
  let ?m = "Escape (CHR ''m'') [Some 1, Some 999] None"
  let ?v1 = "testEraseTerminal\<lparr>Cursor := (Cursor testEraseTerminal)
                 \<lparr>F := zeroFormat\<lparr>Intensity := Bold\<rparr>\<rparr>\<rparr>"
  note w = wf_testEraseTerminal
  have z: "CHR ''Z'' \<notin> set ''ABCDHfJKmsu''" by simp
  note t = errors_keep_grid[OF w, where final = "CHR ''Z''" and ps = "[]"
      and priv = None and c = ?m and err = "UnknownAttributes [999]"
      and ?v1.0 = ?v1 and ?c2.0 = "PutRune 120" and Decode = ?D and dt = ?dt]
  have a: "Process testEraseTerminal (Escape (CHR ''Z'') [] None)
       = Inr (Some (UnsupportedCommand (CHR ''Z'')), testEraseTerminal)"
    using t z by blast
  have m: "Process testEraseTerminal ?m = Inr (Some (UnknownAttributes [999]), ?v1)"
    by code_simp
  have m': "\<exists>ps priv us f. ?m = Escape (CHR ''m'') ps priv
       \<and> UnknownAttributes [999] = UnknownAttributes us
       \<and> ?v1 = testEraseTerminal\<lparr>Cursor := (Cursor testEraseTerminal)\<lparr>F := f\<rparr>\<rparr>"
    using mp[OF conjunct1[OF conjunct2[OF t]] m] by simp
  have "\<not> isl (Process testEraseTerminal (PutRune 120))" by code_simp
  then obtain e v2 where p: "Process testEraseTerminal (PutRune 120) = Inr (e, v2)"
    by (cases "Process testEraseTerminal (PutRune 120)") auto
  then have b: "\<exists>e v2. Process testEraseTerminal (PutRune 120) = Inr (e, v2) \<and> wf v2"
    using t by blast
  have e: "map_sum id (\<lambda>(n, v). (n, Content v, unparsed v)) (Write ?D testEraseTerminal ?dt)
       = Inr (3, [[97, 98, 99, 100], [101, 102, 120, 104], [105, 106, 107, 108]],
              [CHR 0x1B, CHR ''[''])"
    by code_simp
  then obtain v3 where q: "Write ?D testEraseTerminal ?dt = Inr (3, v3)"
    "Content v3 = [[97, 98, 99, 100], [101, 102, 120, 104], [105, 106, 107, 108]]"
    "unparsed v3 = [CHR 0x1B, CHR ''['']"
    by (cases "Write ?D testEraseTerminal ?dt") auto
  then have "wf v3" using t by blast
  then have f: "\<exists>v3. Write ?D testEraseTerminal ?dt = Inr (3, v3) \<and> wf v3
      \<and> Content v3 = [[97, 98, 99, 100], [101, 102, 120, 104], [105, 106, 107, 108]]
      \<and> unparsed v3 = [CHR 0x1B, CHR ''['']"
    using q by blast
  show ?thesis using w z a m m' b f by blast
qed

section \<open>Erase in display through its escape sequence (C7)\<close>

lemma erase_in_display_dispatch:
  "Process v (Escape (CHR ''J'') [] priv) = andThen (eraseLines v 0) (\<lambda>v. Inr (None, v))"
  "Process v (Escape (CHR ''J'') [Some n] priv)
     = andThen (eraseLines v n) (\<lambda>v. Inr (None, v))"
  by (simp_all add: Process_def escape_supported param_def)

text \<open>
  C7. With the cursor in a row \<open>y\<close> of the grid, the escape CSI J (erase in display)
  given to \<open>Process\<close> returns no error and sets exactly these cells to a space with the
  default format, leaving the rune and the format of every other cell as they were:
  with the mode absent or 0 the rows from \<open>y\<close> to the last one, with mode 1 the rows
  from the first one to \<open>y\<close>, with mode 2 every row; every column of the cursor row is
  included in all three. The absent mode gives the same terminal as mode 0.
\<close>

theorem erase_in_display_clears_exactly:
  assumes "wf v" "0 \<le> Y (Cursor v)" "Y (Cursor v) < Height v"
  shows "\<exists>v0 v1 v2.
      Process v (Escape (CHR ''J'') [] priv) = Inr (None, v0)
    \<and> Process v (Escape (CHR ''J'') [Some 0] priv) = Inr (None, v0)
    \<and> Process v (Escape (CHR ''J'') [Some 1] priv) = Inr (None, v1)
    \<and> Process v (Escape (CHR ''J'') [Some 2] priv) = Inr (None, v2)
    \<and> wf v0 \<and> wf v1 \<and> wf v2
    \<and> (\<forall>i j. 0 \<le> i \<and> i < Height v \<and> 0 \<le> j \<and> j < Width v \<longrightarrow>
         cell v0 i j = (if Y (Cursor v) \<le> i then (32, zeroFormat) else cell v i j)
       \<and> cell v1 i j = (if i \<le> Y (Cursor v) then (32, zeroFormat) else cell v i j)
       \<and> cell v2 i j = (32, zeroFormat))"
proof -
  obtain v0 v1 v2 where e:
    "eraseLines v 0 = Inr v0" "eraseLines v 1 = Inr v1" "eraseLines v 2 = Inr v2"
    and w: "wf v0" "wf v1" "wf v2"
    and c: "\<forall>i j. 0 \<le> i \<and> i < Height v \<and> 0 \<le> j \<and> j < Width v \<longrightarrow>
         cell v0 i j = (if Y (Cursor v) \<le> i then (32, zeroFormat) else cell v i j)
       \<and> cell v1 i j = (if i \<le> Y (Cursor v) then (32, zeroFormat) else cell v i j)
       \<and> cell v2 i j = (32, zeroFormat)"
    using eraseLines_clears_exactly[OF assms] by blast
  have "Process v (Escape (CHR ''J'') [] priv) = Inr (None, v0)"
    "Process v (Escape (CHR ''J'') [Some 0] priv) = Inr (None, v0)"
    "Process v (Escape (CHR ''J'') [Some 1] priv) = Inr (None, v1)"
    "Process v (Escape (CHR ''J'') [Some 2] priv) = Inr (None, v2)"
    using e by (simp_all add: erase_in_display_dispatch)
  with w c show ?thesis by blast
qed

theorem erase_in_display_clears_exactly_witness:
  "wf testEraseTerminal \<and> 0 \<le> Y (Cursor testEraseTerminal)
   \<and> Y (Cursor testEraseTerminal) < Height testEraseTerminal
   \<and> (\<exists>v0 v1 v2.
      Process testEraseTerminal (Escape (CHR ''J'') [] None) = Inr (None, v0)
    \<and> Process testEraseTerminal (Escape (CHR ''J'') [Some 0] None) = Inr (None, v0)
    \<and> Process testEraseTerminal (Escape (CHR ''J'') [Some 1] None) = Inr (None, v1)
    \<and> Process testEraseTerminal (Escape (CHR ''J'') [Some 2] None) = Inr (None, v2)
    \<and> wf v0 \<and> wf v1 \<and> wf v2
    \<and> (\<forall>i j. 0 \<le> i \<and> i < Height testEraseTerminal \<and> 0 \<le> j \<and> j < Width testEraseTerminal \<longrightarrow>
         cell v0 i j = (if Y (Cursor testEraseTerminal) \<le> i then (32, zeroFormat)
                        else cell testEraseTerminal i j)
       \<and> cell v1 i j = (if i \<le> Y (Cursor testEraseTerminal) then (32, zeroFormat)
                        else cell testEraseTerminal i j)
       \<and> cell v2 i j = (32, zeroFormat)))
   \<and> map_sum id (\<lambda>(e, v). (e, Content v))
        (Process testEraseTerminal (Escape (CHR ''J'') [] None))
       = Inr (None, [[97, 98, 99, 100], [32, 32, 32, 32], [32, 32, 32, 32]])
   \<and> map_sum id (\<lambda>(e, v). (e, Content v))
        (Process testEraseTerminal (Escape (CHR ''J'') [Some 1] None))
       = Inr (None, [[32, 32, 32, 32], [32, 32, 32, 32], [105, 106, 107, 108]])
   \<and> map_sum id (\<lambda>(e, v). (e, Content v))
        (Process testEraseTerminal (Escape (CHR ''J'') [Some 2] None))
       = Inr (None, [[32, 32, 32, 32], [32, 32, 32, 32], [32, 32, 32, 32]])"
proof -
  have h: "0 \<le> Y (Cursor testEraseTerminal)"
    "Y (Cursor testEraseTerminal) < Height testEraseTerminal"
    by (simp_all add: testEraseTerminal_def)
  have e: "map_sum id (\<lambda>(e, v). (e, Content v))
        (Process testEraseTerminal (Escape (CHR ''J'') [] None))
       = Inr (None, [[97, 98, 99, 100], [32, 32, 32, 32], [32, 32, 32, 32]])"
    "map_sum id (\<lambda>(e, v). (e, Content v))
        (Process testEraseTerminal (Escape (CHR ''J'') [Some 1] None))
       = Inr (None, [[32, 32, 32, 32], [32, 32, 32, 32], [105, 106, 107, 108]])"
    "map_sum id (\<lambda>(e, v). (e, Content v))
        (Process testEraseTerminal (Escape (CHR ''J'') [Some 2] None))
       = Inr (None, [[32, 32, 32, 32], [32, 32, 32, 32], [32, 32, 32, 32]])"
    by code_simp+
  show ?thesis
    using wf_testEraseTerminal h e
      erase_in_display_clears_exactly[OF wf_testEraseTerminal h, of None]
    by blast
qed

end
